theory Spec2Isabelle
  imports Complex_Main
begin

section \<open>Data model of the augmentation tracker (mar\_augment.cpp)\<close>

text \<open>
  A value of the C type \<open>float\<close> that is stored in a struct or an array (a coordinate,
  a descriptor entry, an ellipse parameter, a matrix entry, a distance kept by the
  matcher) is modelled by the real number it denotes: the stored values are finite.
  The arithmetic on them is binary32 arithmetic, modelled in the next section with
  its rounding, its infinities and NaN. The constant \<open>FLT_MAX\<close> is the largest
  finite binary32 value, \<open>2^128 - 2^104\<close>.
\<close>

definition FLT_MAX :: real where
  "FLT_MAX = 340282346638528859811704183484516925440"

text \<open>The constants of mar\_augment.h and mar\_sift.h.\<close>

definition MAR_MAX_NUMBER_OF_AUGMENTATIONS :: nat where
  "MAR_MAX_NUMBER_OF_AUGMENTATIONS = 32"

definition MAR_MAX_KEYPOINT_DIFFERENCE :: real where
  "MAR_MAX_KEYPOINT_DIFFERENCE = 2"

definition MAR_MAX_NUM_OF_MATCHED_KEYPOINTS :: nat where
  "MAR_MAX_NUM_OF_MATCHED_KEYPOINTS = 256"

definition MAR_MIN_NUM_OF_MATCHED_KEYPOINTS :: nat where
  "MAR_MIN_NUM_OF_MATCHED_KEYPOINTS = 5"


definition MAR_AUGMENT_MAX_SKEW :: real where
  "MAR_AUGMENT_MAX_SKEW = 1000"

definition MAR_AUGMENT_MAX_SCALE_RATIO :: real where
  "MAR_AUGMENT_MAX_SCALE_RATIO = 1000"

definition MAR_UNIQUE_KEYPOINT_THRESHOLD :: real where
  "MAR_UNIQUE_KEYPOINT_THRESHOLD = 3.5"

definition MAR_MAX_NUMBER_OF_AUGMENTATION_KEYPOINTS :: nat where
  "MAR_MAX_NUMBER_OF_AUGMENTATION_KEYPOINTS = 512"

definition MAR_SIFT_NBO :: nat where
  "MAR_SIFT_NBO = 8"

definition MAR_SIFT_NBP :: nat where
  "MAR_SIFT_NBP = 4"

text \<open>The byte size of a \<open>float\<close> on the platforms the library builds for.\<close>

definition sizeof_float :: nat where
  "sizeof_float = 4"

text \<open>
  The error codes of mar\_error.h that mar\_augment.cpp produces itself; a code handed
  up from the camera or the SIFT filter is \<open>MAR_ERROR_EXTERNAL n\<close>.
\<close>

datatype mar_error_code =
    MAR_ERROR_NONE
  | MAR_ERROR_AUGMENTATION_ALREADY_INITIALIZED
  | MAR_ERROR_READING_CONFIG
  | MAR_ERROR_AUGMENTATION_NOT_INITIALIZED
  | MAR_ERROR_TOO_FEW_MATCHING_KEYPOINTS
  | MAR_ERROR_TOO_FEW_KEYPOINTS
  | MAR_ERROR_NO_AUGMENTATION_RESOURCES_AVAILABLE
  | MAR_ERROR_AUGMENTATION_ID_DOES_NOT_EXIST
  | MAR_ERROR_EXTERNAL nat

text \<open>
  What C leaves undefined: a read beyond the end of an array. The model stops with
  this value instead of going on with an arbitrary one.
\<close>

datatype fault = OutOfBounds

record mar_sift_keypoint =
  kp_x :: real
  kp_y :: real
  kp_radius :: real
  kp_angle :: real
  descriptor :: "real list"

record mar_mser =
  ellipse_x :: real
  ellipse_y :: real
  ellipse_a :: real
  ellipse_b :: real
  ellipse_angle :: real

text \<open>A keypoint as the C struct holds it: the descriptor array has 128 entries.\<close>

definition wf_keypoint :: "mar_sift_keypoint \<Rightarrow> bool" where
  "wf_keypoint k \<longleftrightarrow> length (descriptor k) = MAR_SIFT_NBO * MAR_SIFT_NBP * MAR_SIFT_NBP"

section \<open>Binary32 arithmetic\<close>

text \<open>
  The value of a \<open>float\<close> expression: a finite number, an infinity or NaN. Zero
  carries no sign in the model: the sign of a zero is seen only by a division, and the
  divisors of this program are the products \<open>a * a * 4\<close>, whose zero is \<open>+0\<close>.
\<close>

datatype float32 = Finite real | PlusInf | MinusInf | NaN

text \<open>
  \<open>binade n x\<close> is the largest exponent \<open>e\<close> from -126 to \<open>n - 126\<close> with
  \<open>2^e \<le> |x|\<close>, and -126 when there is none. With \<open>n = 253\<close> the exponents are
  those of binary32, from -126 to 127, and the spacing of the binary32 values around
  \<open>x\<close> is \<open>ulp32 x\<close>: \<open>2^(e - 23)\<close> for a normal \<open>x\<close>, \<open>2^-149\<close> for a subnormal
  one.
\<close>

fun binade :: "nat \<Rightarrow> real \<Rightarrow> int" where
  "binade 0 x = - 126"
| "binade (Suc n) x = (if 2 powi (int n - 125) \<le> \<bar>x\<bar> then int n - 125 else binade n x)"

definition ulp32 :: "real \<Rightarrow> real" where
  "ulp32 x = 2 powi (binade 253 x - 23)"

text \<open>The nearest integer, the even one of two that are equally near.\<close>

definition round_half_even :: "real \<Rightarrow> int" where
  "round_half_even y =
     (if y - of_int \<lfloor>y\<rfloor> < 1 / 2 then \<lfloor>y\<rfloor>
      else if 1 / 2 < y - of_int \<lfloor>y\<rfloor> then \<lfloor>y\<rfloor> + 1
      else if even \<lfloor>y\<rfloor> then \<lfloor>y\<rfloor> else \<lfloor>y\<rfloor> + 1)"

text \<open>
  Rounding to nearest, ties to even, the rounding of every binary32 operation: the
  exact result \<open>x\<close> goes to the nearest multiple of \<open>ulp32 x\<close>, and to an infinity
  when that is beyond \<open>FLT_MAX\<close>. A result below the subnormal range becomes 0.
\<close>

definition round32 :: "real \<Rightarrow> float32" where
  "round32 x =
     (let r = ulp32 x * of_int (round_half_even (x / ulp32 x))
      in if FLT_MAX < r then PlusInf else if r < - FLT_MAX then MinusInf else Finite r)"

text \<open>
  The operations of IEEE 754 on these values. Each expression of the program is
  evaluated operation by operation in binary32, as on a target without excess
  precision and without fused multiply-add. Where an operand is an \<open>int\<close> constant or
  the C library evaluates in \<open>double\<close> before the result is stored in a \<open>float\<close>
  (\<open>fabs\<close>, \<open>+=\<close>), the value is the same.
\<close>

fun f32_neg :: "float32 \<Rightarrow> float32" where
  "f32_neg (Finite a) = Finite (- a)"
| "f32_neg PlusInf = MinusInf"
| "f32_neg MinusInf = PlusInf"
| "f32_neg NaN = NaN"

fun f32_abs :: "float32 \<Rightarrow> float32" where
  "f32_abs (Finite a) = Finite \<bar>a\<bar>"
| "f32_abs PlusInf = PlusInf"
| "f32_abs MinusInf = PlusInf"
| "f32_abs NaN = NaN"

fun f32_add :: "float32 \<Rightarrow> float32 \<Rightarrow> float32" where
  "f32_add (Finite a) (Finite b) = round32 (a + b)"
| "f32_add NaN y = NaN"
| "f32_add x NaN = NaN"
| "f32_add PlusInf MinusInf = NaN"
| "f32_add MinusInf PlusInf = NaN"
| "f32_add PlusInf y = PlusInf"
| "f32_add x PlusInf = PlusInf"
| "f32_add MinusInf y = MinusInf"
| "f32_add x MinusInf = MinusInf"

definition f32_sub :: "float32 \<Rightarrow> float32 \<Rightarrow> float32" where
  "f32_sub x y = f32_add x (f32_neg y)"

text \<open>The infinity with the sign of \<open>a\<close>; infinity times zero is NaN.\<close>

definition signed_inf :: "real \<Rightarrow> float32" where
  "signed_inf a = (if a = 0 then NaN else if 0 < a then PlusInf else MinusInf)"

fun f32_mul :: "float32 \<Rightarrow> float32 \<Rightarrow> float32" where
  "f32_mul (Finite a) (Finite b) = round32 (a * b)"
| "f32_mul NaN y = NaN"
| "f32_mul x NaN = NaN"
| "f32_mul (Finite a) PlusInf = signed_inf a"
| "f32_mul (Finite a) MinusInf = signed_inf (- a)"
| "f32_mul PlusInf (Finite b) = signed_inf b"
| "f32_mul MinusInf (Finite b) = signed_inf (- b)"
| "f32_mul PlusInf PlusInf = PlusInf"
| "f32_mul PlusInf MinusInf = MinusInf"
| "f32_mul MinusInf PlusInf = MinusInf"
| "f32_mul MinusInf MinusInf = PlusInf"

text \<open>
  Division. A finite value over zero is an infinity with the sign of the dividend, and
  zero over zero is NaN.
\<close>

fun f32_div :: "float32 \<Rightarrow> float32 \<Rightarrow> float32" where
  "f32_div (Finite a) (Finite b) = (if b = 0 then signed_inf a else round32 (a / b))"
| "f32_div NaN y = NaN"
| "f32_div x NaN = NaN"
| "f32_div (Finite a) PlusInf = Finite 0"
| "f32_div (Finite a) MinusInf = Finite 0"
| "f32_div PlusInf (Finite b) = (if 0 \<le> b then PlusInf else MinusInf)"
| "f32_div MinusInf (Finite b) = (if 0 \<le> b then MinusInf else PlusInf)"
| "f32_div PlusInf PlusInf = NaN"
| "f32_div PlusInf MinusInf = NaN"
| "f32_div MinusInf PlusInf = NaN"
| "f32_div MinusInf MinusInf = NaN"

text \<open>The comparison \<open><\<close>: false when an operand is NaN.\<close>

fun f32_less :: "float32 \<Rightarrow> float32 \<Rightarrow> bool" where
  "f32_less (Finite a) (Finite b) = (a < b)"
| "f32_less NaN y = False"
| "f32_less x NaN = False"
| "f32_less x MinusInf = False"
| "f32_less PlusInf y = False"
| "f32_less MinusInf y = True"
| "f32_less x PlusInf = True"

text \<open>
  The real number that a finite value denotes; the statements that use it are about
  finite values.
\<close>

fun f32_value :: "float32 \<Rightarrow> real" where
  "f32_value (Finite r) = r"
| "f32_value x = 0"

text \<open>
  \<open>sin\<close> and \<open>cos\<close> of the C library, taken as correctly rounded: the binary32 value
  nearest to the exact one.
\<close>

fun f32_sin :: "float32 \<Rightarrow> float32" where
  "f32_sin (Finite x) = round32 (sin x)"
| "f32_sin x = NaN"

fun f32_cos :: "float32 \<Rightarrow> float32" where
  "f32_cos (Finite x) = round32 (cos x)"
| "f32_cos x = NaN"

section \<open>Descriptor distance, ellipse predicate, best match\<close>

definition get_keypoint_difference :: "mar_sift_keypoint \<Rightarrow> mar_sift_keypoint \<Rightarrow> float32" where
  "get_keypoint_difference k1 k2 =
     fold (\<lambda>i diff. f32_add diff
                      (f32_abs (f32_sub (Finite (descriptor k1 ! i)) (Finite (descriptor k2 ! i)))))
       [0..<MAR_SIFT_NBO * MAR_SIFT_NBP * MAR_SIFT_NBP] (Finite 0)"

definition is_point_in_ellipse ::
  "real \<Rightarrow> real \<Rightarrow> real \<Rightarrow> real \<Rightarrow> real \<Rightarrow> real \<Rightarrow> real \<Rightarrow> bool" where
  "is_point_in_ellipse px py ex ey ea eb eangle =
     (let x = f32_sub (Finite px) (Finite ex);
          y = f32_sub (Finite py) (Finite ey);
          beta = f32_mul (Finite eangle) (Finite (if ea > eb then 1 else -1));
          sinbeta = f32_sin beta;
          cosbeta = f32_cos beta;
          rx = f32_sub (f32_mul cosbeta x) (f32_mul sinbeta y);
          ry = f32_add (f32_mul sinbeta x) (f32_mul cosbeta y)
      in f32_less
           (f32_add (f32_div (f32_mul rx rx) (f32_mul (f32_mul (Finite ea) (Finite ea)) (Finite 4)))
                    (f32_div (f32_mul ry ry) (f32_mul (f32_mul (Finite eb) (Finite eb)) (Finite 4))))
           (Finite 1))"

text \<open>
  One iteration of the loop of \<open>get_best_keypoint_match\<close>; the loop state is
  \<open>(best_i, best_diff, second_best_diff)\<close>. A difference is a sum of absolute values
  of finite numbers: it is finite or \<open>+infinity\<close>, and \<open>+infinity\<close> is below neither
  \<open>best_diff\<close> nor \<open>second_best_diff\<close>, so that these two hold finite values only.
\<close>

definition match_step ::
  "mar_sift_keypoint \<Rightarrow> mar_sift_keypoint list \<Rightarrow> nat \<Rightarrow> int \<times> real \<times> real \<Rightarrow> int \<times> real \<times> real" where
  "match_step k keypoints i s =
     (case s of (best_i, best_diff, second_best_diff) \<Rightarrow>
        case get_keypoint_difference k (keypoints ! i) of
          Finite difference \<Rightarrow>
            if difference < best_diff then (int i, difference, best_diff)
            else if difference < second_best_diff then (best_i, best_diff, difference)
            else (best_i, best_diff, second_best_diff)
        | _ \<Rightarrow> (best_i, best_diff, second_best_diff))"

text \<open>
  \<open>get_best_keypoint_match\<close> returns the index (\<open>-1\<close> for no match) and the value
  written to \<open>*best_difference\<close>. The caller passes an array holding at least
  \<open>num_keypoints\<close> entries. \<open>MAR_UNIQUE_KEYPOINT_THRESHOLD\<close> is the \<open>double\<close>
  constant 3.5: the product and the comparison of the uniqueness test are made in
  \<open>double\<close>, where the product of a binary32 value with 3.5 is exact.
\<close>

definition get_best_keypoint_match ::
  "mar_sift_keypoint \<Rightarrow> mar_sift_keypoint list \<Rightarrow> nat \<Rightarrow> int \<times> real" where
  "get_best_keypoint_match k keypoints num_keypoints =
     (case fold (match_step k keypoints) [0..<num_keypoints] (-1, FLT_MAX, 0) of
        (best_i, best_diff, second_best_diff) \<Rightarrow>
          (if best_diff * MAR_UNIQUE_KEYPOINT_THRESHOLD \<le> second_best_diff then best_i else -1,
           best_diff))"

section \<open>Augmentations and the module state\<close>

text \<open>
  A \<open>fmat::fixed<3, 3>\<close> as its three rows. \<open>mat3_apply m x y\<close> is the product of
  \<open>m\<close> with the column \<open>(x, y, 1)\<close>, of which the callers keep rows 0 and 1. The
  product is computed inside the Armadillo library, whose order of operations is not
  part of this program: the model has the exact product. For the zero matrix, the
  matrix of the runs evaluated below, that is the binary32 result as well.
\<close>

type_synonym mat3 = "(real \<times> real \<times> real) \<times> (real \<times> real \<times> real) \<times> (real \<times> real \<times> real)"

definition mat3_zero :: mat3 where
  "mat3_zero = ((0, 0, 0), (0, 0, 0), (0, 0, 0))"

definition mat3_apply :: "mat3 \<Rightarrow> real \<Rightarrow> real \<Rightarrow> real \<times> real" where
  "mat3_apply m x y =
     (case m of ((m00, m01, m02), (m10, m11, m12), (m20, m21, m22)) \<Rightarrow>
        (m00 * x + m01 * y + m02 * 1, m10 * x + m11 * y + m12 * 1))"

record mar_augmentation =
  mser :: mar_mser
  transform :: mat3
  transform_inverse :: mat3
  initial_keypoints :: "mar_sift_keypoint list"
  num_initial_keypoints :: nat
  new_keypoint_cursor :: nat
  potential_keypoints :: "mar_sift_keypoint list"
  num_potential_keypoints :: nat

text \<open>
  The file-level variables of mar\_augment.cpp. The pair \<open>mar_sift_keypoints\<close>,
  \<open>mar_sift_num_keypoints\<close> is one list; the three arrays indexed by augmentation id
  have \<open>MAR_MAX_NUMBER_OF_AUGMENTATIONS\<close> entries.
\<close>

record mar_state =
  mar_augment_initialized :: bool
  mar_run_augmentation :: bool
  mar_mser_calculated_this_frame :: bool
  mar_sift_calculated_this_frame :: bool
  mar_sift_keypoints :: "mar_sift_keypoint list"
  mar_number_of_augmentations :: int
  mar_augmentation_initialized :: "bool list"
  mar_augmentations :: "mar_augmentation list"
  mar_augmentation_successful :: "mar_error_code list"

definition wf_state :: "mar_state \<Rightarrow> bool" where
  "wf_state st \<longleftrightarrow>
     length (mar_augmentation_initialized st) = MAR_MAX_NUMBER_OF_AUGMENTATIONS \<and>
     length (mar_augmentations st) = MAR_MAX_NUMBER_OF_AUGMENTATIONS \<and>
     length (mar_augmentation_successful st) = MAR_MAX_NUMBER_OF_AUGMENTATIONS"

section \<open>The matching passes of \<open>mar_augment_update\<close>\<close>

text \<open>
  The local arrays \<open>x\<close>, \<open>y\<close>, \<open>u\<close>, \<open>v\<close>, \<open>differences\<close> and the counter
  \<open>matched_keypoints\<close>. C leaves \<open>x\<close>, \<open>y\<close>, \<open>u\<close>, \<open>v\<close> uninitialised; the model
  starts them at 0.
\<close>

record match_buffers =
  matched_keypoints :: nat
  buf_x :: "real list"
  buf_y :: "real list"
  buf_u :: "real list"
  buf_v :: "real list"
  differences :: "real list"

definition init_buffers :: match_buffers where
  "init_buffers =
     \<lparr>matched_keypoints = 0,
      buf_x = replicate MAR_MAX_NUM_OF_MATCHED_KEYPOINTS 0,
      buf_y = replicate MAR_MAX_NUM_OF_MATCHED_KEYPOINTS 0,
      buf_u = replicate MAR_MAX_NUM_OF_MATCHED_KEYPOINTS 0,
      buf_v = replicate MAR_MAX_NUM_OF_MATCHED_KEYPOINTS 0,
      differences = replicate MAR_MAX_NUM_OF_MATCHED_KEYPOINTS MAR_MAX_KEYPOINT_DIFFERENCE\<rparr>"

text \<open>
  "Initialize matching variables": the counter and \<open>differences\<close> are reset, the other
  four arrays keep what they hold.
\<close>

definition reset_matching :: "match_buffers \<Rightarrow> match_buffers" where
  "reset_matching b =
     b\<lparr>matched_keypoints := 0,
       differences := replicate MAR_MAX_NUM_OF_MATCHED_KEYPOINTS MAR_MAX_KEYPOINT_DIFFERENCE\<rparr>"

text \<open>The loop \<open>for (m = MAX-1; m > l; m--) a[m] = a[m-1]\<close>.\<close>

definition shift_right :: "nat \<Rightarrow> 'a list \<Rightarrow> 'a list" where
  "shift_right l xs =
     fold (\<lambda>m a. a[m := a ! (m - 1)]) (rev [Suc l..<MAR_MAX_NUM_OF_MATCHED_KEYPOINTS]) xs"

text \<open>
  The loop over \<open>l\<close>: the first slot whose difference is larger takes the match, the
  entries from there on move one slot up and the last one is dropped.
\<close>

definition place_match :: "real \<Rightarrow> real \<Rightarrow> real \<Rightarrow> real \<Rightarrow> real \<Rightarrow> match_buffers \<Rightarrow> match_buffers" where
  "place_match rx ry qx qy best_difference b =
     (case find (\<lambda>l. best_difference < differences b ! l) [0..<MAR_MAX_NUM_OF_MATCHED_KEYPOINTS] of
        None \<Rightarrow> b
      | Some l \<Rightarrow>
          b\<lparr>buf_x := (shift_right l (buf_x b))[l := rx],
            buf_y := (shift_right l (buf_y b))[l := ry],
            buf_u := (shift_right l (buf_u b))[l := qx],
            buf_v := (shift_right l (buf_v b))[l := qy],
            differences := (shift_right l (differences b))[l := best_difference]\<rparr>)"

text \<open>"Check if the match is one of the best matches so far".\<close>

definition record_match :: "real \<Rightarrow> real \<Rightarrow> real \<Rightarrow> real \<Rightarrow> real \<Rightarrow> match_buffers \<Rightarrow> match_buffers" where
  "record_match rx ry qx qy best_difference b =
     (if best_difference < differences b ! (MAR_MAX_NUM_OF_MATCHED_KEYPOINTS - 1)
      then place_match rx ry qx qy best_difference (b\<lparr>matched_keypoints := matched_keypoints b + 1\<rparr>)
      else b)"

text \<open>\<open>memcpy (dst, src, n)\<close> between two float arrays: \<open>n\<close> counts bytes.\<close>

definition memcpy_floats :: "real list \<Rightarrow> real list \<Rightarrow> nat \<Rightarrow> real list" where
  "memcpy_floats dst src n = take (n div sizeof_float) src @ drop (n div sizeof_float) dst"

text \<open>
  The body of the loop over the keypoints within the ellipse (lines 450 to 490): the
  state is the buffers and the array \<open>initial_keypoints\<close>.
\<close>

definition match_contained_step ::
  "nat \<Rightarrow> mar_sift_keypoint \<Rightarrow> match_buffers \<times> mar_sift_keypoint list \<Rightarrow>
   match_buffers \<times> mar_sift_keypoint list" where
  "match_contained_step num_initial q s =
     (case s of (b, initial) \<Rightarrow>
        case get_best_keypoint_match q initial num_initial of (k, best_difference) \<Rightarrow>
          if k \<noteq> -1
          then (record_match (kp_x (initial ! nat k)) (kp_y (initial ! nat k)) (kp_x q) (kp_y q)
                  best_difference b,
                initial[nat k := (initial ! nat k)
                  \<lparr>descriptor := memcpy_floats (descriptor (initial ! nat k)) (descriptor q) 128\<rparr>])
          else (b, initial))"

text \<open>The body of the loop over all the keypoints of the frame (lines 503 to 540).\<close>

definition match_frame_step ::
  "nat \<Rightarrow> mar_sift_keypoint list \<Rightarrow> mar_sift_keypoint \<Rightarrow> match_buffers \<Rightarrow> match_buffers" where
  "match_frame_step num_initial initial q b =
     (case get_best_keypoint_match q initial num_initial of (k, best_difference) \<Rightarrow>
        if k \<noteq> -1
        then record_match (kp_x (initial ! nat k)) (kp_y (initial ! nat k)) (kp_x q) (kp_y q)
               best_difference b
        else b)"

text \<open>
  "Find keypoints within the given ellipse": the frame keypoints whose untransformed
  position is inside the ellipse of the augmentation, in frame order. The call of
  \<open>mar_augment_untransform_point\<close> is made for an initialised augmentation, where it
  applies \<open>transform_inverse\<close>.
\<close>

definition contained_keypoints :: "mar_augmentation \<Rightarrow> mar_sift_keypoint list \<Rightarrow> mar_sift_keypoint list" where
  "contained_keypoints a frame =
     filter (\<lambda>kp. case mat3_apply (transform_inverse a) (kp_x kp) (kp_y kp) of (ox, oy) \<Rightarrow>
               is_point_in_ellipse ox oy (ellipse_x (mser a)) (ellipse_y (mser a))
                 (ellipse_a (mser a)) (ellipse_b (mser a)) (ellipse_angle (mser a)))
       frame"

text \<open>
  Lines 418 to 541: the pass over the contained keypoints and, when it counted fewer
  than \<open>MAR_MIN_NUM_OF_MATCHED_KEYPOINTS\<close>, the pass over the whole frame.
\<close>

definition local_pass ::
  "mar_augmentation \<Rightarrow> mar_sift_keypoint list \<Rightarrow> match_buffers \<times> mar_sift_keypoint list" where
  "local_pass a frame =
     fold (match_contained_step (num_initial_keypoints a)) (contained_keypoints a frame)
       (init_buffers, initial_keypoints a)"

definition frame_pass ::
  "nat \<Rightarrow> mar_sift_keypoint list \<Rightarrow> mar_sift_keypoint list \<Rightarrow> match_buffers \<Rightarrow> match_buffers" where
  "frame_pass num_initial initial frame b =
     fold (match_frame_step num_initial initial) frame (reset_matching b)"

definition matching_phase ::
  "mar_augmentation \<Rightarrow> mar_sift_keypoint list \<Rightarrow> match_buffers \<times> mar_sift_keypoint list" where
  "matching_phase a frame =
     (case local_pass a frame of (b, initial) \<Rightarrow>
        if matched_keypoints b < MAR_MIN_NUM_OF_MATCHED_KEYPOINTS
        then (frame_pass (num_initial_keypoints a) initial frame b, initial)
        else (b, initial))"

section \<open>Geometric fit, validation and commit\<close>

text \<open>
  The six entries \<open>T(0,0)\<close> to \<open>T(5,0)\<close> of the solution. The product
  \<open>pinv(A) * b\<close> is computed by the Armadillo library and is a parameter \<open>solve\<close> of
  the model, applied to the rows of \<open>A\<close> and the entries of \<open>b\<close>.
\<close>

type_synonym vec6 = "real \<times> real \<times> real \<times> real \<times> real \<times> real"

type_synonym solver = "real list list \<Rightarrow> real list \<Rightarrow> vec6"

text \<open>
  The loop of lines 554 to 573 reads \<open>x[j]\<close>, \<open>y[j]\<close>, \<open>u[j]\<close> and \<open>v[j]\<close> for every
  \<open>j < matched_keypoints\<close>.
\<close>

definition fit_read_indices :: "match_buffers \<Rightarrow> nat list" where
  "fit_read_indices b = [0..<matched_keypoints b]"

definition design_rows :: "match_buffers \<Rightarrow> real list list" where
  "design_rows b =
     concat (map (\<lambda>j. [[buf_x b ! j, buf_y b ! j, 0, 0, 1, 0],
                        [0, 0, buf_x b ! j, buf_y b ! j, 0, 1]]) (fit_read_indices b))"

definition rhs_entries :: "match_buffers \<Rightarrow> real list" where
  "rhs_entries b = concat (map (\<lambda>j. [buf_u b ! (0 + j), buf_v b ! (0 + j)]) (fit_read_indices b))"

text \<open>The arrays have \<open>MAR_MAX_NUM_OF_MATCHED_KEYPOINTS\<close> entries: a larger index is a fault.\<close>

definition fill_system :: "match_buffers \<Rightarrow> fault + real list list \<times> real list" where
  "fill_system b =
     (if list_ex (\<lambda>j. MAR_MAX_NUM_OF_MATCHED_KEYPOINTS \<le> j) (fit_read_indices b)
      then Inl OutOfBounds
      else Inr (design_rows b, rhs_entries b))"

text \<open>
  The two tests on the solution, \<open>fabs (T(1,0) + T(2,0)) > MAR_AUGMENT_MAX_SKEW\<close> and
  \<open>fabs (T(0,0) - T(3,0)) > MAR_AUGMENT_MAX_SCALE_RATIO\<close>: the sum and the difference
  are binary32 operations.
\<close>

definition skew_rejected :: "vec6 \<Rightarrow> bool" where
  "skew_rejected T =
     (case T of (t0, t1, t2, t3, t4, t5) \<Rightarrow>
        f32_less (Finite MAR_AUGMENT_MAX_SKEW) (f32_abs (f32_add (Finite t1) (Finite t2))))"

definition scale_rejected :: "vec6 \<Rightarrow> bool" where
  "scale_rejected T =
     (case T of (t0, t1, t2, t3, t4, t5) \<Rightarrow>
        f32_less (Finite MAR_AUGMENT_MAX_SCALE_RATIO) (f32_abs (f32_sub (Finite t0) (Finite t3))))"

text \<open>"Set the transformation matrix" (lines 596 to 604).\<close>

definition assemble_transform :: "vec6 \<Rightarrow> mat3" where
  "assemble_transform T =
     (case T of (t0, t1, t2, t3, t4, t5) \<Rightarrow> ((t0, t1, t4), (t2, t3, t5), (0, 0, 1)))"

section \<open>Adding new keypoints\<close>

text \<open>
  The body of the loop of lines 637 to 661 for the keypoint \<open>q = contained_keypoints[j]\<close>;
  the state is the local \<open>num_keypoints\<close> (the bound of the loop),
  \<open>new_potential_keypoints\<close> and the augmentation.
\<close>

definition grow_step ::
  "mar_sift_keypoint \<Rightarrow> nat \<times> nat \<times> mar_augmentation \<Rightarrow> nat \<times> nat \<times> mar_augmentation" where
  "grow_step q s =
     (case s of (num_keypoints, new_potential_keypoints, a) \<Rightarrow>
        case get_best_keypoint_match q (initial_keypoints a) (num_initial_keypoints a) of
          (k, best_difference) \<Rightarrow>
            if best_difference > MAR_MAX_KEYPOINT_DIFFERENCE
            then (case get_best_keypoint_match q (potential_keypoints a) (num_potential_keypoints a) of
                    (k', best_difference') \<Rightarrow>
                      if k' \<noteq> -1 \<and> best_difference' < MAR_MAX_KEYPOINT_DIFFERENCE
                      then (case mat3_apply (transform_inverse a) (kp_x q) (kp_y q) of (ox, oy) \<Rightarrow>
                              (if num_keypoints \<ge> MAR_MAX_NUMBER_OF_AUGMENTATION_KEYPOINTS
                               then MAR_MAX_NUMBER_OF_AUGMENTATION_KEYPOINTS else num_keypoints + 1,
                               new_potential_keypoints,
                               a\<lparr>initial_keypoints :=
                                    (initial_keypoints a)[new_keypoint_cursor a := q\<lparr>kp_x := ox, kp_y := oy\<rparr>],
                                  new_keypoint_cursor :=
                                    (new_keypoint_cursor a + 1) mod MAR_MAX_NUMBER_OF_AUGMENTATION_KEYPOINTS\<rparr>))
                      else (num_keypoints, new_potential_keypoints, a))
            else (num_keypoints, new_potential_keypoints + 1,
                  a\<lparr>potential_keypoints := (potential_keypoints a)[new_potential_keypoints := q]\<rparr>))"

text \<open>
  The loop itself. \<open>cbuf\<close> is the buffer allocated for exactly the keypoints copied
  into it: reading \<open>contained_keypoints[j]\<close> at \<open>j\<close> beyond its length is a fault.
\<close>

function grow_loop ::
  "mar_sift_keypoint list \<Rightarrow> nat \<Rightarrow> nat \<times> nat \<times> mar_augmentation \<Rightarrow> fault + mar_augmentation" where
  "grow_loop cbuf j s =
     (if j < fst s \<and> fst (snd s) < MAR_MAX_NUMBER_OF_AUGMENTATION_KEYPOINTS
      then (if length cbuf \<le> j then Inl OutOfBounds
            else grow_loop cbuf (j + 1) (grow_step (cbuf ! j) s))
      else Inr ((snd (snd s))\<lparr>num_potential_keypoints := fst (snd s)\<rparr>))"
  by pat_completeness auto
termination
  by (relation "measure (\<lambda>(cbuf, j, s). length cbuf - j)") auto

declare grow_loop.simps [simp del]

definition add_new_points :: "mar_augmentation \<Rightarrow> mar_sift_keypoint list \<Rightarrow> fault + mar_augmentation" where
  "add_new_points a frame =
     grow_loop (contained_keypoints a frame) 0 (length (contained_keypoints a frame), 0, a)"

section \<open>\<open>mar_augment_update\<close>\<close>

text \<open>
  The body of the loop over the augmentations for one initialised augmentation
  (lines 417 to 671): the augmentation after the frame and the value stored in
  \<open>mar_augmentation_successful[i]\<close>.
\<close>

definition update_augmentation ::
  "solver \<Rightarrow> mar_sift_keypoint list \<Rightarrow> mar_augmentation \<Rightarrow> fault + mar_augmentation \<times> mar_error_code" where
  "update_augmentation solve frame a =
     (case matching_phase a frame of (b, initial) \<Rightarrow>
        let a1 = a\<lparr>initial_keypoints := initial\<rparr>
        in if matched_keypoints b \<ge> MAR_MIN_NUM_OF_MATCHED_KEYPOINTS
           then (case fill_system b of
                   Inl f \<Rightarrow> Inl f
                 | Inr (A, rhs) \<Rightarrow>
                     let T = solve A rhs
                     in if skew_rejected T then Inr (a1, MAR_ERROR_TOO_FEW_MATCHING_KEYPOINTS)
                        else if scale_rejected T then Inr (a1, MAR_ERROR_TOO_FEW_MATCHING_KEYPOINTS)
                        else (case add_new_points (a1\<lparr>transform := assemble_transform T\<rparr>) frame of
                                Inl f \<Rightarrow> Inl f
                              | Inr a3 \<Rightarrow> Inr (a3, MAR_ERROR_NONE)))
           else Inr (a1, MAR_ERROR_TOO_FEW_MATCHING_KEYPOINTS))"

definition update_slot ::
  "solver \<Rightarrow> mar_sift_keypoint list \<Rightarrow> nat \<Rightarrow> fault + mar_state \<Rightarrow> fault + mar_state" where
  "update_slot solve frame i r =
     (case r of
        Inl f \<Rightarrow> Inl f
      | Inr st \<Rightarrow>
          if mar_augmentation_initialized st ! i
          then (case update_augmentation solve frame (mar_augmentations st ! i) of
                  Inl f \<Rightarrow> Inl f
                | Inr (a', code) \<Rightarrow>
                    Inr (st\<lparr>mar_augmentations := (mar_augmentations st)[i := a'],
                            mar_augmentation_successful := (mar_augmentation_successful st)[i := code]\<rparr>))
          else Inr st)"

text \<open>
  \<open>camera\<close> is the result of \<open>mar_camera_update\<close>; \<open>sift\<close> is the result of
  \<open>mar_sift_get_keypoints\<close> on the new frame and the keypoints it leaves in
  \<open>mar_sift_keypoints\<close>.
\<close>

definition mar_augment_update ::
  "mar_error_code \<Rightarrow> mar_error_code \<times> mar_sift_keypoint list \<Rightarrow> solver \<Rightarrow> mar_state \<Rightarrow>
   fault + mar_state \<times> mar_error_code" where
  "mar_augment_update camera sift solve st =
     (if \<not> mar_augment_initialized st then Inr (st, MAR_ERROR_AUGMENTATION_NOT_INITIALIZED)
      else
        let st1 = st\<lparr>mar_mser_calculated_this_frame := False, mar_sift_calculated_this_frame := False\<rparr>
        in if camera \<noteq> MAR_ERROR_NONE then Inr (st1, camera)
           else if mar_run_augmentation st1
           then (let st2 = st1\<lparr>mar_sift_keypoints := snd sift\<rparr>
                 in if fst sift \<noteq> MAR_ERROR_NONE then Inr (st2, fst sift)
                    else (case fold (update_slot solve (snd sift)) [0..<MAR_MAX_NUMBER_OF_AUGMENTATIONS]
                                 (Inr (st2\<lparr>mar_sift_calculated_this_frame := True\<rparr>)) of
                            Inl f \<Rightarrow> Inl f
                          | Inr st3 \<Rightarrow> Inr (st3, MAR_ERROR_NONE)))
           else Inr (st1, MAR_ERROR_NONE))"

section \<open>The public operations on one augmentation\<close>

text \<open>
  An id (\<open>aid\<close>) is an \<open>unsigned char\<close>; the arrays indexed by it have
  \<open>MAR_MAX_NUMBER_OF_AUGMENTATIONS\<close> entries, and no operation compares the id with
  that bound: an id beyond it is a fault.
\<close>

text \<open>
  \<open>mar_augment_get_transformation\<close> returns the code and, when it filled it, the
  sixteen entries of \<open>mat\<close>.
\<close>

definition mar_augment_get_transformation ::
  "mar_state \<Rightarrow> nat \<Rightarrow> fault + mar_error_code \<times> real list option" where
  "mar_augment_get_transformation st aid =
     (if \<not> mar_augment_initialized st then Inr (MAR_ERROR_AUGMENTATION_NOT_INITIALIZED, None)
      else if MAR_MAX_NUMBER_OF_AUGMENTATIONS \<le> aid then Inl OutOfBounds
      else if \<not> mar_augmentation_initialized st ! aid
      then Inr (MAR_ERROR_AUGMENTATION_ID_DOES_NOT_EXIST, None)
      else (case transform (mar_augmentations st ! aid) of
              ((m00, m01, m02), (m10, m11, m12), (m20, m21, m22)) \<Rightarrow>
                Inr (MAR_ERROR_NONE,
                     Some [m00, m10, 0, m20, m01, m11, 0, m21, 0, 0, 1, 0, m02, m12, 0, m22])))"

definition mar_augmentation_get_error :: "mar_state \<Rightarrow> nat \<Rightarrow> fault + mar_error_code" where
  "mar_augmentation_get_error st aid =
     (if MAR_MAX_NUMBER_OF_AUGMENTATIONS \<le> aid then Inl OutOfBounds
      else Inr (mar_augmentation_successful st ! aid))"

definition mar_augment_transform_point ::
  "mar_state \<Rightarrow> nat \<Rightarrow> real \<Rightarrow> real \<Rightarrow> fault + mar_error_code \<times> (real \<times> real) option" where
  "mar_augment_transform_point st aid x y =
     (if \<not> mar_augment_initialized st then Inr (MAR_ERROR_AUGMENTATION_NOT_INITIALIZED, None)
      else if MAR_MAX_NUMBER_OF_AUGMENTATIONS \<le> aid then Inl OutOfBounds
      else if \<not> mar_augmentation_initialized st ! aid
      then Inr (MAR_ERROR_AUGMENTATION_ID_DOES_NOT_EXIST, None)
      else Inr (MAR_ERROR_NONE, Some (mat3_apply (transform (mar_augmentations st ! aid)) x y)))"

definition mar_augment_untransform_point ::
  "mar_state \<Rightarrow> nat \<Rightarrow> real \<Rightarrow> real \<Rightarrow> fault + mar_error_code \<times> (real \<times> real) option" where
  "mar_augment_untransform_point st aid x y =
     (if \<not> mar_augment_initialized st then Inr (MAR_ERROR_AUGMENTATION_NOT_INITIALIZED, None)
      else if MAR_MAX_NUMBER_OF_AUGMENTATIONS \<le> aid then Inl OutOfBounds
      else if \<not> mar_augmentation_initialized st ! aid
      then Inr (MAR_ERROR_AUGMENTATION_ID_DOES_NOT_EXIST, None)
      else Inr (MAR_ERROR_NONE, Some (mat3_apply (transform_inverse (mar_augmentations st ! aid)) x y)))"

definition mar_augment_free_augmentation :: "mar_state \<Rightarrow> nat \<Rightarrow> fault + mar_state" where
  "mar_augment_free_augmentation st aid =
     (if MAR_MAX_NUMBER_OF_AUGMENTATIONS \<le> aid then Inl OutOfBounds
      else if mar_augmentation_initialized st ! aid
      then Inr (st\<lparr>mar_augmentation_initialized := (mar_augmentation_initialized st)[aid := False],
                   mar_number_of_augmentations := mar_number_of_augmentations st - 1\<rparr>)
      else Inr st)"

section \<open>\<open>mar_augment_new_augmentation\<close>\<close>


text \<open>
  The body of the loop of lines 766 to 781; the state is the array
  \<open>initial_keypoints\<close>, \<open>new_keypoint_cursor\<close> and \<open>num_keypoints\<close>.
\<close>

definition seed_step ::
  "mar_mser \<Rightarrow> mar_sift_keypoint \<Rightarrow> mar_sift_keypoint list \<times> nat \<times> nat \<Rightarrow>
   mar_sift_keypoint list \<times> nat \<times> nat" where
  "seed_step region kp s =
     (case s of (initial, cursor, num_keypoints) \<Rightarrow>
        if is_point_in_ellipse (kp_x kp) (kp_y kp) (ellipse_x region) (ellipse_y region)
             (ellipse_a region) (ellipse_b region) (ellipse_angle region)
        then (initial[cursor := kp
                \<lparr>kp_x := (kp_x kp - ellipse_x region) / ((ellipse_a region + ellipse_b region) / 2),
                 kp_y := (kp_y kp - ellipse_y region) / ((ellipse_a region + ellipse_b region) / 2)\<rparr>],
              (cursor + 1) mod MAR_MAX_NUMBER_OF_AUGMENTATION_KEYPOINTS,
              if num_keypoints \<ge> MAR_MAX_NUMBER_OF_AUGMENTATION_KEYPOINTS
              then MAR_MAX_NUMBER_OF_AUGMENTATION_KEYPOINTS else num_keypoints + 1)
        else (initial, cursor, num_keypoints))"


section \<open>Notions of the specification\<close>

text \<open>The L1 distance of two descriptors of dimension 128, in exact arithmetic.\<close>

definition l1_distance :: "real list \<Rightarrow> real list \<Rightarrow> real" where
  "l1_distance q r = (\<Sum>i<128. \<bar>q ! i - r ! i\<bar>)"

text \<open>
  The distances of a probe to the first \<open>n\<close> references, in order, as
  \<open>get_keypoint_difference\<close> computes them.
\<close>

definition differences_to :: "mar_sift_keypoint \<Rightarrow> mar_sift_keypoint list \<Rightarrow> nat \<Rightarrow> real list" where
  "differences_to k keypoints n =
     map (\<lambda>i. f32_value (get_keypoint_difference k (keypoints ! i))) [0..<n]"

definition smallest :: "real list \<Rightarrow> real" where
  "smallest ds = Min (set ds)"

text \<open>The second entry in ascending order: equal to the smallest when that occurs twice.\<close>

definition second_smallest :: "real list \<Rightarrow> real" where
  "second_smallest ds = sort ds ! 1"

definition first_index_of :: "real \<Rightarrow> real list \<Rightarrow> nat" where
  "first_index_of v ds = length (takeWhile (\<lambda>d. d \<noteq> v) ds)"

text \<open>
  The rotation of the plane by the angle \<open>phi\<close>, counter-clockwise: in exact
  arithmetic, and evaluated in binary32.
\<close>

definition rotate2 :: "real \<Rightarrow> real \<times> real \<Rightarrow> real \<times> real" where
  "rotate2 phi p = (cos phi * fst p - sin phi * snd p, sin phi * fst p + cos phi * snd p)"

definition rotate2_f32 :: "float32 \<Rightarrow> float32 \<times> float32 \<Rightarrow> float32 \<times> float32" where
  "rotate2_f32 phi p =
     (f32_sub (f32_mul (f32_cos phi) (fst p)) (f32_mul (f32_sin phi) (snd p)),
      f32_add (f32_mul (f32_sin phi) (fst p)) (f32_mul (f32_cos phi) (snd p)))"

text \<open>
  The ellipse predicate in the words of the specification, in exact arithmetic: the
  point, translated by \<open>-(cx, cy)\<close>, is rotated by \<open>-sign(a - b) * theta\<close>.
\<close>

definition point_in_ellipse_spec ::
  "real \<Rightarrow> real \<Rightarrow> real \<Rightarrow> real \<Rightarrow> real \<Rightarrow> real \<Rightarrow> real \<Rightarrow> bool" where
  "point_in_ellipse_spec px py cx cy a b theta =
     (case rotate2 (- sgn (a - b) * theta) (px - cx, py - cy) of
        (rx, ry) \<Rightarrow> rx\<^sup>2 / (2 * a)\<^sup>2 + ry\<^sup>2 / (2 * b)\<^sup>2 < 1)"

text \<open>
  The matches of a pass over \<open>frame\<close> against fixed references that pass the uniqueness
  test, and those among them whose distance is below \<open>MAR_MAX_KEYPOINT_DIFFERENCE\<close>.
\<close>

definition accepted_matches ::
  "nat \<Rightarrow> mar_sift_keypoint list \<Rightarrow> mar_sift_keypoint list \<Rightarrow> mar_sift_keypoint list" where
  "accepted_matches num_initial initial frame =
     filter (\<lambda>q. fst (get_best_keypoint_match q initial num_initial) \<noteq> -1) frame"

definition close_matches ::
  "nat \<Rightarrow> mar_sift_keypoint list \<Rightarrow> mar_sift_keypoint list \<Rightarrow> mar_sift_keypoint list" where
  "close_matches num_initial initial frame =
     filter (\<lambda>q. fst (get_best_keypoint_match q initial num_initial) \<noteq> -1 \<and>
                 snd (get_best_keypoint_match q initial num_initial) < MAR_MAX_KEYPOINT_DIFFERENCE)
       frame"


text \<open>The five arrays of the buffers have their declared size.\<close>

definition wf_buffers :: "match_buffers \<Rightarrow> bool" where
  "wf_buffers b \<longleftrightarrow>
     length (buf_x b) = MAR_MAX_NUM_OF_MATCHED_KEYPOINTS \<and>
     length (buf_y b) = MAR_MAX_NUM_OF_MATCHED_KEYPOINTS \<and>
     length (buf_u b) = MAR_MAX_NUM_OF_MATCHED_KEYPOINTS \<and>
     length (buf_v b) = MAR_MAX_NUM_OF_MATCHED_KEYPOINTS \<and>
     length (differences b) = MAR_MAX_NUM_OF_MATCHED_KEYPOINTS"

text \<open>
  What holds of the buffers during a pass: no entry of \<open>differences\<close> is above
  \<open>MAR_MAX_KEYPOINT_DIFFERENCE\<close>, and the entries from \<open>matched_keypoints\<close> on still
  hold it.
\<close>

definition buffers_inv :: "match_buffers \<Rightarrow> bool" where
  "buffers_inv b \<longleftrightarrow>
     wf_buffers b \<and>
     list_all (\<lambda>d. d \<le> MAR_MAX_KEYPOINT_DIFFERENCE) (differences b) \<and>
     list_all (\<lambda>d. d = MAR_MAX_KEYPOINT_DIFFERENCE) (drop (matched_keypoints b) (differences b))"


text \<open>The keypoints that lie inside the ellipse of a region, in order.\<close>

definition keypoints_in_region :: "mar_mser \<Rightarrow> mar_sift_keypoint list \<Rightarrow> mar_sift_keypoint list" where
  "keypoints_in_region region kps =
     filter (\<lambda>kp. is_point_in_ellipse (kp_x kp) (kp_y kp) (ellipse_x region) (ellipse_y region)
                (ellipse_a region) (ellipse_b region) (ellipse_angle region)) kps"

section \<open>Test data\<close>

definition test_keypoint :: "real \<Rightarrow> real \<Rightarrow> real list \<Rightarrow> mar_sift_keypoint" where
  "test_keypoint x y d = \<lparr>kp_x = x, kp_y = y, kp_radius = 0, kp_angle = 0, descriptor = d\<rparr>"

text \<open>A descriptor with the value \<open>a\<close> in dimension \<open>i\<close> and 0 elsewhere.\<close>

definition unit_descriptor :: "nat \<Rightarrow> real \<Rightarrow> real list" where
  "unit_descriptor i a = (replicate 128 0)[i := a]"

definition blank_keypoint :: mar_sift_keypoint where
  "blank_keypoint = test_keypoint 0 0 (replicate 128 0)"

text \<open>
  An array of references as registration leaves it: ten keypoints, the descriptor of
  reference \<open>i\<close> being 10 in dimension \<open>40 + i\<close>.
\<close>

definition seeded_keypoints :: "mar_sift_keypoint list" where
  "seeded_keypoints =
     map (\<lambda>i. test_keypoint (real i) (real (i * i)) (unit_descriptor (40 + i) 10)) [0..<10]
     @ replicate 502 blank_keypoint"

text \<open>An augmentation right after registration; the origin is outside its ellipse.\<close>

definition test_augmentation :: mar_augmentation where
  "test_augmentation =
     \<lparr>mser = \<lparr>ellipse_x = 100, ellipse_y = 100, ellipse_a = 20, ellipse_b = 20, ellipse_angle = 0\<rparr>,
      transform = mat3_zero, transform_inverse = mat3_zero,
      initial_keypoints = seeded_keypoints, num_initial_keypoints = 10, new_keypoint_cursor = 10,
      potential_keypoints = replicate 512 blank_keypoint, num_potential_keypoints = 0\<rparr>"

text \<open>The same with an ellipse around \<open>(10, 10)\<close>, which contains the origin.\<close>

definition origin_augmentation :: mar_augmentation where
  "origin_augmentation =
     test_augmentation
       \<lparr>mser := \<lparr>ellipse_x = 10, ellipse_y = 10, ellipse_a = 20, ellipse_b = 20, ellipse_angle = 0\<rparr>\<rparr>"

text \<open>
  A frame of \<open>n\<close> keypoints, keypoint \<open>i\<close> having the value \<open>c\<close> in the dimension of
  reference \<open>i\<close>.
\<close>

definition moved_frame :: "real \<Rightarrow> nat \<Rightarrow> mar_sift_keypoint list" where
  "moved_frame c n =
     map (\<lambda>i. test_keypoint (200 + real i) (50 + real (i * i)) (unit_descriptor (40 + i) c)) [0..<n]"

text \<open>
  A frame of 257 keypoints that all match reference 0, each closer to it than the one
  before. The descriptor entries are multiples of \<open>1/1024\<close>, which binary32 holds.
\<close>

definition crowd_frame :: "mar_sift_keypoint list" where
  "crowd_frame =
     map (\<lambda>k. test_keypoint (real k) (real k) (unit_descriptor 40 (10 + (257 - real k) / 1024)))
       [0..<257]"

text \<open>
  Two references for a probe with the zero descriptor. The first is at the distance
  \<open>9586981 / 2^25\<close>. The second has the entry 1 followed by 127 entries \<open>2^-25\<close>:
  its L1 distance is \<open>1 + 127 / 2^25\<close>, and the binary32 sum stays at 1.
\<close>

definition absorbed_references :: "mar_sift_keypoint list" where
  "absorbed_references =
     [test_keypoint 0 0 (unit_descriptor 0 (9586981 / 2 ^ 25)),
      test_keypoint 0 0 (1 # replicate 127 (1 / 2 ^ 25))]"

text \<open>
  Two frames for \<open>origin_augmentation\<close>. The first holds keypoints that match the
  references 0 to 4 exactly and \<open>potential_keypoint\<close>, at distance 1.5 from
  reference 9. The second starts with \<open>candidate_keypoint\<close>, which is further than
  \<open>MAR_MAX_KEYPOINT_DIFFERENCE\<close> from every reference and at distance 1.5 from
  \<open>potential_keypoint\<close>. \<open>promoting_augmentation\<close> is the augmentation between the
  two frames.
\<close>

definition potential_keypoint :: mar_sift_keypoint where
  "potential_keypoint = test_keypoint 7 7 (unit_descriptor 49 8.5)"

definition candidate_keypoint :: mar_sift_keypoint where
  "candidate_keypoint = test_keypoint 5 5 (unit_descriptor 49 7)"

definition first_frame :: "mar_sift_keypoint list" where
  "first_frame = moved_frame 10 5 @ [potential_keypoint]"

definition second_frame :: "mar_sift_keypoint list" where
  "second_frame = candidate_keypoint # moved_frame 10 5"

definition promoting_augmentation :: mar_augmentation where
  "promoting_augmentation =
     origin_augmentation
       \<lparr>transform := ((1, 0, 30), (0, 1, -15), (0, 0, 1)),
        potential_keypoints := first_frame @ drop 6 (replicate 512 blank_keypoint),
        num_potential_keypoints := 6\<rparr>"



text \<open>
  The module after \<open>mar_augment_init\<close>, with the static arrays as C zeroes them, and
  with the keypoints \<open>kps\<close> of the current frame computed.
\<close>

definition blank_augmentation :: mar_augmentation where
  "blank_augmentation =
     \<lparr>mser = \<lparr>ellipse_x = 0, ellipse_y = 0, ellipse_a = 0, ellipse_b = 0, ellipse_angle = 0\<rparr>,
      transform = mat3_zero, transform_inverse = mat3_zero,
      initial_keypoints = replicate 512 blank_keypoint, num_initial_keypoints = 0,
      new_keypoint_cursor = 0,
      potential_keypoints = replicate 512 blank_keypoint, num_potential_keypoints = 0\<rparr>"

definition empty_registry :: "mar_sift_keypoint list \<Rightarrow> mar_state" where
  "empty_registry kps =
     \<lparr>mar_augment_initialized = True, mar_run_augmentation = True,
      mar_mser_calculated_this_frame = False, mar_sift_calculated_this_frame = True,
      mar_sift_keypoints = kps, mar_number_of_augmentations = 0,
      mar_augmentation_initialized = replicate 32 False,
      mar_augmentations = replicate 32 blank_augmentation,
      mar_augmentation_successful = replicate 32 MAR_ERROR_NONE\<rparr>"

text \<open>The registry with \<open>test_augmentation\<close> in slot 0 and nothing else.\<close>

definition tracking_registry :: mar_state where
  "tracking_registry =
     (empty_registry [])
       \<lparr>mar_number_of_augmentations := 1,
        mar_augmentation_initialized := (replicate 32 False)[0 := True],
        mar_augmentations := (replicate 32 blank_augmentation)[0 := test_augmentation]\<rparr>"


text \<open>A solver that returns the same six parameters whatever the system.\<close>

definition fixed_solver :: "vec6 \<Rightarrow> solver" where
  "fixed_solver T A rhs = T"

section \<open>Rounding\<close>

lemma binade_cases: "binade n x = - 126 \<or> 2 powi (binade n x) \<le> \<bar>x\<bar>"
  by (induction n) auto

lemma binade_eq:
  assumes "- 126 \<le> e" "e \<le> int n - 126" "2 powi e \<le> \<bar>x\<bar>" "\<bar>x\<bar> < 2 powi (e + 1)"
  shows "binade n x = e"
  using assms
proof (induction n)
  case 0
  then show ?case by simp
next
  case (Suc n)
  show ?case
  proof (cases "e = int n - 125")
    case True
    with Suc.prems show ?thesis by simp
  next
    case False
    then have le: "e + 1 \<le> int n - 125" using Suc.prems by simp
    have "(2::real) powi (e + 1) \<le> 2 powi (int n - 125)"
      using le by (intro power_int_increasing) simp_all
    then have "\<not> 2 powi (int n - 125) \<le> \<bar>x\<bar>" using Suc.prems(4) by simp
    moreover have "binade n x = e" using Suc False by simp
    ultimately show ?thesis by simp
  qed
qed

lemma binade_small:
  assumes "\<bar>x\<bar> < 2 powi (- 125)"
  shows "binade n x = - 126"
proof (induction n)
  case 0
  show ?case by simp
next
  case (Suc n)
  have "(2::real) powi (- 125) \<le> 2 powi (int n - 125)"
    by (intro power_int_increasing) simp_all
  then have "\<not> 2 powi (int n - 125) \<le> \<bar>x\<bar>" using assms by simp
  with Suc show ?case by simp
qed

lemma ulp32_pos: "0 < ulp32 x"
  by (simp add: ulp32_def)

lemma round_half_even_of_int [simp]: "round_half_even (of_int z) = z"
  by (simp add: round_half_even_def)

lemma round_half_even_near: "\<bar>of_int (round_half_even y) - y\<bar> \<le> 1 / 2"
  unfolding round_half_even_def by (auto; linarith)

lemma round_half_even_nonneg: "0 \<le> y \<Longrightarrow> 0 \<le> round_half_even y"
  unfolding round_half_even_def by (auto simp: add_nonneg_nonneg)

lemma round_half_even_nearest:
  assumes "\<bar>y - of_int z\<bar> < 1 / 2"
  shows "round_half_even y = z"
proof -
  have "\<lfloor>y\<rfloor> = z \<or> \<lfloor>y\<rfloor> = z - 1" using assms by linarith
  then show ?thesis
  proof
    assume f: "\<lfloor>y\<rfloor> = z"
    then have "y - of_int \<lfloor>y\<rfloor> < 1 / 2" using assms by linarith
    then show ?thesis by (simp add: round_half_even_def f)
  next
    assume f: "\<lfloor>y\<rfloor> = z - 1"
    then have "1 / 2 < y - of_int \<lfloor>y\<rfloor>" using assms by linarith
    then show ?thesis by (simp add: round_half_even_def f)
  qed
qed

lemma round32_finite:
  assumes "r = ulp32 x * of_int (round_half_even (x / ulp32 x))" "\<bar>r\<bar> \<le> FLT_MAX"
  shows "round32 x = Finite r"
proof -
  have "\<not> FLT_MAX < r" "\<not> r < - FLT_MAX" using assms(2) by linarith+
  then show ?thesis by (simp add: round32_def Let_def assms(1) [symmetric])
qed

text \<open>
  The rounding of \<open>x\<close> in the binade \<open>e\<close>, when the multiple \<open>z\<close> of the spacing is
  nearer than half of it.
\<close>

lemma round32_nearest:
  assumes "binade 253 x = e" and "\<bar>x / 2 powi (e - 23) - of_int z\<bar> < 1 / 2"
    and "r = 2 powi (e - 23) * of_int z" and "\<bar>r\<bar> \<le> FLT_MAX"
  shows "round32 x = Finite r"
proof -
  have "round_half_even (x / ulp32 x) = z"
    using assms(1,2) by (intro round_half_even_nearest) (simp add: ulp32_def)
  then have "r = ulp32 x * of_int (round_half_even (x / ulp32 x))"
    using assms(1,3) by (simp add: ulp32_def)
  from round32_finite [OF this assms(4)] show ?thesis .
qed

text \<open>A binary32 value, \<open>m * 2^k\<close> with \<open>|m| < 2^24\<close> and \<open>k \<ge> -149\<close>, is not changed.\<close>

lemma round32_exact:
  assumes "x = of_int m * 2 powi k" "\<bar>m\<bar> < 2 ^ 24" "- 149 \<le> k" "\<bar>x\<bar> \<le> FLT_MAX"
  shows "round32 x = Finite x"
proof -
  define e where "e = binade 253 x"
  have le: "e - 23 \<le> k"
  proof (cases "e = - 126")
    case True
    with assms(3) show ?thesis by simp
  next
    case False
    then have "2 powi e \<le> \<bar>x\<bar>" using binade_cases [of 253 x] by (simp add: e_def)
    also have "\<bar>x\<bar> = of_int \<bar>m\<bar> * 2 powi k" by (simp add: assms(1) abs_mult)
    also have "\<dots> < 2 ^ 24 * 2 powi k"
    proof -
      have "(of_int \<bar>m\<bar> :: real) < of_int (2 ^ 24)" using assms(2) by (simp only: of_int_less_iff)
      then show ?thesis by simp
    qed
    also have "\<dots> = 2 powi (k + 24)" by (simp add: power_int_add)
    finally have "(2::real) powi e < 2 powi (k + 24)" .
    have "e < k + 24"
    proof (rule ccontr)
      assume "\<not> e < k + 24"
      then have "(2::real) powi (k + 24) \<le> 2 powi e" by (intro power_int_increasing) simp_all
      with \<open>(2::real) powi e < 2 powi (k + 24)\<close> show False by simp
    qed
    then show ?thesis by simp
  qed
  define j where "j = nat (k - (e - 23))"
  have k: "k = (e - 23) + int j" using le by (simp add: j_def)
  have u: "ulp32 x = 2 powi (e - 23)" by (simp add: ulp32_def e_def)
  have xq: "x = 2 powi (e - 23) * of_int (m * 2 ^ j)"
    by (simp add: assms(1) k power_int_add)
  have "x / 2 powi (e - 23) = of_int (m * 2 ^ j)"
    by (subst xq) (simp del: of_int_mult of_int_power)
  then have "round_half_even (x / ulp32 x) = m * 2 ^ j"
    unfolding u by (simp only: round_half_even_of_int)
  then have "x = ulp32 x * of_int (round_half_even (x / ulp32 x))"
    unfolding u using xq by simp
  from round32_finite [OF this assms(4)] show ?thesis .
qed

text \<open>In particular the multiples of \<open>1/1024\<close> up to 8192.\<close>

lemma round32_grid:
  assumes "x * 1024 \<in> \<int>" "\<bar>x\<bar> \<le> 8192"
  shows "round32 x = Finite x"
proof -
  obtain m :: int where m: "x * 1024 = of_int m" using assms(1) by (auto elim: Ints_cases)
  have "\<bar>of_int m :: real\<bar> \<le> 8192 * 1024" using assms(2) m [symmetric] by (simp add: abs_mult)
  then have "\<bar>m\<bar> \<le> 8192 * 1024" by linarith
  then have "\<bar>m\<bar> < 2 ^ 24" by simp
  moreover have "x = of_int m * 2 powi (- 10)" using m by simp
  moreover have "\<bar>x\<bar> \<le> FLT_MAX" using assms(2) by (simp add: FLT_MAX_def)
  ultimately show ?thesis by (intro round32_exact [of x m "- 10"]) simp_all
qed

text \<open>Up to 32 the rounding moves a value by \<open>2^-19\<close> at most, and keeps its sign.\<close>

lemma round32_near:
  assumes "\<bar>x\<bar> \<le> 32"
  shows "\<exists>r. round32 x = Finite r \<and> \<bar>r - x\<bar> \<le> 1 / 2 ^ 19 \<and> (0 \<le> x \<longrightarrow> 0 \<le> r)"
proof -
  define q where "q = ulp32 x"
  define r where "r = q * of_int (round_half_even (x / q))"
  have q0: "0 < q" by (simp add: q_def ulp32_pos)
  have "q \<le> 2 powi (- 18)"
  proof (cases "binade 253 x = - 126")
    case True
    have "(2::real) powi (- 126 - 23) \<le> 2 powi (- 18)" by (intro power_int_increasing) simp_all
    then show ?thesis by (simp add: q_def ulp32_def True)
  next
    case False
    then have "2 powi (binade 253 x) \<le> \<bar>x\<bar>" using binade_cases [of 253 x] by simp
    also have "\<bar>x\<bar> \<le> 2 powi 5" using assms by simp
    finally have p: "(2::real) powi (binade 253 x) \<le> 2 powi 5" .
    have "binade 253 x \<le> 5"
    proof (rule ccontr)
      assume "\<not> binade 253 x \<le> 5"
      then have "(2::real) powi 5 < 2 powi (binade 253 x)" by (intro power_int_strict_increasing) simp_all
      with p show False by simp
    qed
    then have "(2::real) powi (binade 253 x - 23) \<le> 2 powi (- 18)"
      by (intro power_int_increasing) simp_all
    then show ?thesis by (simp add: q_def ulp32_def)
  qed
  then have q18: "q \<le> 1 / 2 ^ 18" by (simp add: power_int_minus field_simps)
  have "\<bar>r - x\<bar> = q * \<bar>of_int (round_half_even (x / q)) - x / q\<bar>"
  proof -
    have "r - x = q * (of_int (round_half_even (x / q)) - x / q)"
      using q0 by (simp add: r_def field_simps)
    then show ?thesis using q0 by (simp add: abs_mult)
  qed
  also have "\<dots> \<le> q * (1 / 2)"
    using q0 round_half_even_near [of "x / q"] by (intro mult_left_mono) simp_all
  also have "\<dots> \<le> 1 / 2 ^ 19" using q18 by simp
  finally have near: "\<bar>r - x\<bar> \<le> 1 / 2 ^ 19" .
  have "(1::real) / 2 ^ 19 \<le> 1" by simp
  then have "\<bar>r\<bar> \<le> 33" using near assms by linarith
  then have "\<bar>r\<bar> \<le> FLT_MAX" by (simp add: FLT_MAX_def)
  then have fin: "round32 x = Finite r"
    by (intro round32_finite) (simp_all add: r_def q_def)
  have "0 \<le> r" if "0 \<le> x"
  proof -
    have "0 \<le> x / q" using that q0 by simp
    from round_half_even_nonneg [OF this] q0 show ?thesis by (simp add: r_def)
  qed
  with fin near show ?thesis by blast
qed

text \<open>The rounding of a value that is not negative is finite and not negative, or \<open>+infinity\<close>.\<close>

lemma round32_nonneg:
  assumes "0 \<le> x"
  shows "round32 x = PlusInf \<or> (\<exists>r\<ge>0. round32 x = Finite r)"
proof -
  have "0 \<le> x / ulp32 x" using assms ulp32_pos [of x] by simp
  from round_half_even_nonneg [OF this]
  have "0 \<le> ulp32 x * of_int (round_half_even (x / ulp32 x))"
    using ulp32_pos [of x] by simp
  moreover have "0 < FLT_MAX" by (simp add: FLT_MAX_def)
  ultimately show ?thesis by (auto simp add: round32_def Let_def)
qed

text \<open>And the integers below \<open>2^24\<close>.\<close>

lemma round32_int:
  assumes "x \<in> \<int>" "\<bar>x\<bar> \<le> 16777215"
  shows "round32 x = Finite x"
proof -
  obtain m :: int where m: "x = of_int m" using assms(1) by (auto elim: Ints_cases)
  have "\<bar>of_int m :: real\<bar> \<le> 16777215" using assms(2) m by simp
  then have "\<bar>m\<bar> \<le> 16777215" by linarith
  then have "\<bar>m\<bar> < 2 ^ 24" by simp
  moreover have "x = of_int m * 2 powi 0" using m by simp
  moreover have "\<bar>x\<bar> \<le> FLT_MAX" using assms(2) by (simp add: FLT_MAX_def)
  ultimately show ?thesis by (intro round32_exact [of x m 0]) simp_all
qed

text \<open>The rounding of a value in the middle between two multiples of the spacing.\<close>

lemma round_half_even_tie: "round_half_even (of_int z + 1 / 2) = (if even z then z else z + 1)"
proof -
  have "\<lfloor>of_int z + 1 / 2 :: real\<rfloor> = z" by linarith
  then show ?thesis by (simp add: round_half_even_def)
qed

lemma round32_tie:
  assumes "binade 253 x = e" and "x / 2 powi (e - 23) = of_int z + 1 / 2"
    and "r = 2 powi (e - 23) * of_int (if even z then z else z + 1)" and "\<bar>r\<bar> \<le> FLT_MAX"
  shows "round32 x = Finite r"
proof -
  have "round_half_even (x / ulp32 x) = (if even z then z else z + 1)"
    using assms(1,2) round_half_even_tie [of z] by (simp add: ulp32_def)
  then have "r = ulp32 x * of_int (round_half_even (x / ulp32 x))"
    using assms(1,3) by (simp add: ulp32_def)
  from round32_finite [OF this assms(4)] show ?thesis .
qed

text \<open>
  The rounding at some characteristic values: a tie goes to the even neighbour, the
  largest finite value is kept, the middle between it and \<open>2^128\<close> overflows, the
  smallest subnormal value \<open>2^-149\<close> is kept and its half becomes 0.
\<close>

lemma round32_ties:
  "round32 (1 + 1 / 2 ^ 24) = Finite 1"
  "round32 (1 + 3 / 2 ^ 24) = Finite (1 + 1 / 2 ^ 22)"
proof -
  show "round32 (1 + 1 / 2 ^ 24) = Finite 1"
  proof (rule round32_tie [where e = 0 and z = 8388608])
    show "binade 253 (1 + 1 / 2 ^ 24) = 0" by (rule binade_eq) simp_all
  qed (simp_all add: FLT_MAX_def)
  show "round32 (1 + 3 / 2 ^ 24) = Finite (1 + 1 / 2 ^ 22)"
  proof (rule round32_tie [where e = 0 and z = 8388609])
    show "binade 253 (1 + 3 / 2 ^ 24) = 0" by (rule binade_eq) simp_all
  qed (simp_all add: FLT_MAX_def)
qed

lemma round32_limits:
  "round32 FLT_MAX = Finite FLT_MAX"
  "round32 (2 ^ 128 - 2 ^ 103) = PlusInf"
  "round32 (1 / 2 ^ 149) = Finite (1 / 2 ^ 149)"
  "round32 (1 / 2 ^ 150) = Finite 0"
proof -
  have m: "FLT_MAX = of_int 16777215 * 2 powi 104" by (simp add: FLT_MAX_def)
  have "\<bar>FLT_MAX\<bar> \<le> FLT_MAX" by (simp add: FLT_MAX_def)
  then show "round32 FLT_MAX = Finite FLT_MAX"
    by (intro round32_exact [OF m]) simp_all
  define x :: real where "x = 2 ^ 128 - 2 ^ 103"
  have b: "binade 253 x = 127" by (rule binade_eq) (simp_all add: x_def)
  have u: "ulp32 x = 2 powi (127 - 23)" by (simp add: ulp32_def b)
  have q: "x / 2 powi (127 - 23) = of_int 16777215 + 1 / 2" by (simp add: x_def)
  have r: "round_half_even (x / ulp32 x) = 16777216"
    by (subst u, subst q, subst round_half_even_tie) simp
  have "ulp32 x * of_int (round_half_even (x / ulp32 x)) = 2 ^ 128"
    by (subst r, subst u) simp
  then have "round32 x = PlusInf" by (simp add: round32_def Let_def FLT_MAX_def)
  then show "round32 (2 ^ 128 - 2 ^ 103) = PlusInf" by (simp add: x_def)
  show "round32 (1 / 2 ^ 149) = Finite (1 / 2 ^ 149)"
    by (rule round32_exact [of _ 1 "- 149"]) (simp_all add: power_int_minus FLT_MAX_def field_simps)
  show "round32 (1 / 2 ^ 150) = Finite 0"
  proof (rule round32_tie [where e = "- 126" and z = 0])
    show "binade 253 (1 / 2 ^ 150) = - 126"
      by (rule binade_small) (simp add: power_int_minus field_simps)
  qed (simp_all add: FLT_MAX_def power_int_minus field_simps)
qed

section \<open>The descriptor distance\<close>

lemma round32_cases:
  "round32 x = PlusInf \<or> round32 x = MinusInf \<or> (\<exists>r. round32 x = Finite r)"
  by (simp add: round32_def Let_def)

lemma f32_sub_finite: "f32_sub (Finite a) (Finite b) = round32 (a - b)"
  by (simp add: f32_sub_def)

text \<open>
  The value of \<open>get_keypoint_difference\<close> is finite and not negative, or \<open>+infinity\<close>.
\<close>

lemma get_keypoint_difference_range:
  "get_keypoint_difference k1 k2 = PlusInf \<or> (\<exists>d\<ge>0. get_keypoint_difference k1 k2 = Finite d)"
proof -
  define step where "step = (\<lambda>i diff. f32_add diff
      (f32_abs (f32_sub (Finite (descriptor k1 ! i)) (Finite (descriptor k2 ! i)))))"
  have tm: "f32_abs (round32 y) = PlusInf \<or> (\<exists>t\<ge>0. f32_abs (round32 y) = Finite t)" for y
    using round32_cases [of y] by auto
  have "fold step [0..<n] (Finite 0) = PlusInf \<or> (\<exists>d\<ge>0. fold step [0..<n] (Finite 0) = Finite d)"
    for n
  proof (induction n)
    case 0
    show ?case by simp
  next
    case (Suc n)
    define acc where "acc = fold step [0..<n] (Finite 0)"
    define t where "t = f32_abs (round32 (descriptor k1 ! n - descriptor k2 ! n))"
    have f: "fold step [0..<Suc n] (Finite 0) = f32_add acc t"
      by (simp add: acc_def t_def step_def f32_sub_finite)
    have A: "acc = PlusInf \<or> (\<exists>d\<ge>0. acc = Finite d)" using Suc by (simp add: acc_def)
    have T: "t = PlusInf \<or> (\<exists>d\<ge>0. t = Finite d)" unfolding t_def by (rule tm)
    have "f32_add acc t = PlusInf \<or> (\<exists>d\<ge>0. f32_add acc t = Finite d)"
    proof -
      consider "acc = PlusInf" | "t = PlusInf" | a d where "acc = Finite a" "t = Finite d" "0 \<le> a" "0 \<le> d"
        using A T by blast
      then show ?thesis
      proof cases
        case 1
        with T show ?thesis by auto
      next
        case 2
        with A show ?thesis by auto
      next
        case 3
        then have "0 \<le> a + d" by simp
        from round32_nonneg [OF this] 3 show ?thesis by simp
      qed
    qed
    then show ?case unfolding f .
  qed
  then show ?thesis
    unfolding get_keypoint_difference_def step_def .
qed

lemma below_finite:
  assumes "f32_less (get_keypoint_difference k1 k2) (Finite m)"
  shows "get_keypoint_difference k1 k2 = Finite (f32_value (get_keypoint_difference k1 k2)) \<and>
     f32_value (get_keypoint_difference k1 k2) < m"
  using get_keypoint_difference_range [of k1 k2] assms by auto

text \<open>The loop of \<open>get_keypoint_difference\<close>, when the sums it goes through are known.\<close>

lemma difference_fold_steps:
  assumes "\<And>i. i < n \<Longrightarrow>
      f32_add (Finite (S i)) (f32_abs (f32_sub (Finite (q ! i)) (Finite (r ! i)))) = Finite (S (Suc i))"
  shows "fold (\<lambda>i diff. f32_add diff (f32_abs (f32_sub (Finite (q ! i)) (Finite (r ! i)))))
           [0..<n] (Finite (S 0)) = Finite (S n)"
  using assms by (induction n) simp_all

text \<open>
  Between descriptors whose entries differ by multiples of \<open>1/1024\<close>, and up to 8192,
  no operation of \<open>get_keypoint_difference\<close> rounds: its value is the L1 distance.
\<close>

lemma get_keypoint_difference_exact:
  assumes grid: "\<And>i. i < 128 \<Longrightarrow> (descriptor k1 ! i - descriptor k2 ! i) * 1024 \<in> \<int>"
    and bound: "l1_distance (descriptor k1) (descriptor k2) \<le> 8192"
  shows "get_keypoint_difference k1 k2 = Finite (l1_distance (descriptor k1) (descriptor k2))"
proof -
  define t where "t = (\<lambda>i. \<bar>descriptor k1 ! i - descriptor k2 ! i\<bar>)"
  define S where "S = (\<lambda>n. \<Sum>i<n. t i)"
  have t0: "0 \<le> t i" for i by (simp add: t_def)
  have mono: "S n \<le> S 128" if "n \<le> 128" for n
    unfolding S_def using that by (intro sum_mono2) (auto simp: t0)
  have S128: "S 128 \<le> 8192" using bound by (simp add: S_def t_def l1_distance_def)
  have Sint: "S n * 1024 \<in> \<int>" if "n \<le> 128" for n
  proof -
    have "S n * 1024 = (\<Sum>i<n. \<bar>(descriptor k1 ! i - descriptor k2 ! i) * 1024\<bar>)"
    proof -
      have "\<bar>d\<bar> * 1024 = \<bar>d * 1024\<bar>" for d :: real by (simp add: abs_mult)
      then show ?thesis unfolding S_def t_def sum_distrib_right by (intro sum.cong refl)
    qed
    also have "\<dots> \<in> \<int>" using that grid by (intro Ints_sum Ints_abs) simp
    finally show ?thesis .
  qed
  have step: "f32_add (Finite (S i)) (f32_abs (f32_sub (Finite (descriptor k1 ! i))
      (Finite (descriptor k2 ! i)))) = Finite (S (Suc i))" if "i < 128" for i
  proof -
    have "t i \<le> S (Suc i)" using sum_nonneg [of "{..<i}" t] by (simp add: S_def t0)
    also have "\<dots> \<le> 8192" using mono [of "Suc i"] S128 that by simp
    finally have ti: "\<bar>descriptor k1 ! i - descriptor k2 ! i\<bar> \<le> 8192" by (simp add: t_def)
    have sub: "f32_sub (Finite (descriptor k1 ! i)) (Finite (descriptor k2 ! i)) =
        Finite (descriptor k1 ! i - descriptor k2 ! i)"
      unfolding f32_sub_finite using grid [OF that] ti by (rule round32_grid)
    have "0 \<le> S (Suc i)" unfolding S_def by (intro sum_nonneg) (simp add: t0)
    then have "\<bar>S (Suc i)\<bar> \<le> 8192" using mono [of "Suc i"] S128 that by simp
    moreover have "S (Suc i) * 1024 \<in> \<int>" using Sint [of "Suc i"] that by simp
    ultimately have "round32 (S (Suc i)) = Finite (S (Suc i))" by (intro round32_grid)
    moreover have "S i + \<bar>descriptor k1 ! i - descriptor k2 ! i\<bar> = S (Suc i)"
      by (simp add: S_def t_def)
    ultimately show ?thesis by (simp add: sub)
  qed
  have "fold (\<lambda>i diff. f32_add diff (f32_abs (f32_sub (Finite (descriptor k1 ! i))
      (Finite (descriptor k2 ! i))))) [0..<128] (Finite (S 0)) = Finite (S 128)"
    by (rule difference_fold_steps) (rule step)
  then show ?thesis
    by (simp add: get_keypoint_difference_def MAR_SIFT_NBO_def MAR_SIFT_NBP_def S_def t_def
        l1_distance_def)
qed

lemma l1_distance_unit:
  assumes "i < 128" "j < 128"
  shows "l1_distance (unit_descriptor i a) (unit_descriptor j b) =
     (if i = j then \<bar>a - b\<bar> else \<bar>a\<bar> + \<bar>b\<bar>)"
proof -
  have nth: "unit_descriptor i' c ! k = (if k = i' then c else 0)" if "k < 128" for i' c k
    using that by (simp add: unit_descriptor_def nth_list_update)
  have "l1_distance (unit_descriptor i a) (unit_descriptor j b) =
      (\<Sum>k<128. \<bar>(if k = i then a else 0) - (if k = j then b else 0)\<bar>)"
    unfolding l1_distance_def by (rule sum.cong) (simp_all add: nth)
  also have "\<dots> = (if i = j then \<bar>a - b\<bar> else \<bar>a\<bar> + \<bar>b\<bar>)"
  proof (cases "i = j")
    case True
    have "(\<Sum>k<128. \<bar>(if k = i then a else 0) - (if k = i then b else 0)\<bar>) =
        (\<Sum>k\<in>{..<128::nat}. if k = i then \<bar>a - b\<bar> else 0)"
      by (rule sum.cong) simp_all
    also have "\<dots> = \<bar>a - b\<bar>" using assms by simp
    finally show ?thesis using True by simp
  next
    case False
    have "(\<Sum>k<128. \<bar>(if k = i then a else 0) - (if k = j then b else 0)\<bar>) =
        (\<Sum>k\<in>{..<128::nat}. (if k = i then \<bar>a\<bar> else 0) + (if k = j then \<bar>b\<bar> else 0))"
      by (rule sum.cong) (use False in auto)
    also have "\<dots> = \<bar>a\<bar> + \<bar>b\<bar>" using assms by (simp add: sum.distrib)
    finally show ?thesis using False by simp
  qed
  finally show ?thesis .
qed

text \<open>The distance of two descriptors with one entry each, on that grid.\<close>

lemma difference_unit:
  assumes "i < 128" "j < 128" "a * 1024 \<in> \<int>" "b * 1024 \<in> \<int>" "\<bar>a\<bar> \<le> 4096" "\<bar>b\<bar> \<le> 4096"
  shows "get_keypoint_difference (test_keypoint x y (unit_descriptor i a))
       (test_keypoint x' y' (unit_descriptor j b)) =
     Finite (if i = j then \<bar>a - b\<bar> else \<bar>a\<bar> + \<bar>b\<bar>)"
proof -
  have nth: "unit_descriptor i' c ! k = (if k = i' then c else 0)" if "k < 128" for i' c k
    using that by (simp add: unit_descriptor_def nth_list_update)
  have "(unit_descriptor i a ! k - unit_descriptor j b ! k) * 1024 \<in> \<int>" if "k < 128" for k
    using that assms(3,4) by (auto simp add: nth left_diff_distrib)
  moreover have "l1_distance (unit_descriptor i a) (unit_descriptor j b) \<le> 8192"
  proof -
    have "\<bar>a - b\<bar> \<le> 8192" "\<bar>a\<bar> + \<bar>b\<bar> \<le> 8192" using assms(5,6) by linarith+
    then show ?thesis using assms(1,2) by (simp add: l1_distance_unit)
  qed
  ultimately have "get_keypoint_difference (test_keypoint x y (unit_descriptor i a))
       (test_keypoint x' y' (unit_descriptor j b)) =
     Finite (l1_distance (unit_descriptor i a) (unit_descriptor j b))"
    using get_keypoint_difference_exact
      [of "test_keypoint x y (unit_descriptor i a)" "test_keypoint x' y' (unit_descriptor j b)"]
    by (simp add: test_keypoint_def)
  then show ?thesis using assms(1,2) by (simp add: l1_distance_unit)
qed

section \<open>The best match\<close>

lemma sort_snoc: "sort (xs @ [v]) = insort v (sort xs)"
  by (simp add: sort_conv_fold)

lemma sort_not_Nil: "xs \<noteq> [] \<Longrightarrow> sort xs \<noteq> []"
proof
  assume "xs \<noteq> []" "sort xs = []"
  moreover have "length (sort xs) = length xs" by simp
  ultimately show False by simp
qed

lemma insort_nth_1:
  assumes "sorted ys" "ys \<noteq> []"
  shows "insort v ys ! 1 =
     (if v < ys ! 0 then ys ! 0
      else if length ys = 1 then v
      else if v < ys ! 1 then v else ys ! 1)"
proof (cases ys)
  case Nil
  with assms show ?thesis by simp
next
  case (Cons a zs)
  show ?thesis
  proof (cases zs)
    case Nil
    with Cons show ?thesis by auto
  next
    case (Cons b rest)
    with \<open>ys = a # zs\<close> assms show ?thesis by auto
  qed
qed

lemma sort_nth_0: "xs \<noteq> [] \<Longrightarrow> sort xs ! 0 = Min (set xs)"
proof -
  assume "xs \<noteq> []"
  then obtain y ys where s: "sort xs = y # ys"
    using sort_not_Nil [of xs] by (cases "sort xs") auto
  have "sorted (y # ys)" using sorted_sort [of xs] s by simp
  then have "\<forall>z\<in>set (y # ys). y \<le> z" by auto
  moreover have "set (y # ys) = set xs" using s by (metis set_sort)
  ultimately have "Min (set xs) = y" by (intro Min_eqI) auto
  then show ?thesis using s by simp
qed

lemma first_index_snoc_less:
  assumes "xs \<noteq> []" "v < Min (set xs)"
  shows "first_index_of v (xs @ [v]) = length xs"
proof -
  have "\<forall>x\<in>set xs. x \<noteq> v" using assms Min_le by (metis List.finite_set less_le_not_le)
  then show ?thesis by (simp add: first_index_of_def takeWhile_append2)
qed

lemma first_index_snoc_keep:
  assumes "xs \<noteq> []"
  shows "first_index_of (Min (set xs)) (xs @ [v]) = first_index_of (Min (set xs)) xs"
proof -
  have "Min (set xs) \<in> set xs" using assms by simp
  then show ?thesis by (simp add: first_index_of_def takeWhile_append1)
qed

text \<open>
  What the loop of \<open>get_best_keypoint_match\<close> holds after \<open>n \<ge> 1\<close> references, when
  every distance is below \<open>FLT_MAX\<close>.
\<close>

lemma match_loop_invariant:
  assumes "0 < n"
    and "\<forall>i<n. f32_less (get_keypoint_difference k (keypoints ! i)) (Finite FLT_MAX)"
  shows "fold (match_step k keypoints) [0..<n] (-1, FLT_MAX, 0) =
     (int (first_index_of (smallest (differences_to k keypoints n)) (differences_to k keypoints n)),
      smallest (differences_to k keypoints n),
      if n = 1 then FLT_MAX else second_smallest (differences_to k keypoints n))"
  using assms
proof (induction n)
  case 0
  then show ?case by simp
next
  case (Suc n)
  define d where "d = f32_value (get_keypoint_difference k (keypoints ! n))"
  define ds where "ds = differences_to k keypoints n"
  have snoc: "differences_to k keypoints (Suc n) = ds @ [d]"
    by (simp add: differences_to_def d_def ds_def)
  have "f32_less (get_keypoint_difference k (keypoints ! n)) (Finite FLT_MAX)"
    using Suc.prems by simp
  from below_finite [OF this]
  have gd: "get_keypoint_difference k (keypoints ! n) = Finite d" and dlt: "d < FLT_MAX"
    by (simp_all add: d_def)
  have step: "fold (match_step k keypoints) [0..<Suc n] s =
      match_step k keypoints n (fold (match_step k keypoints) [0..<n] s)" for s
    by simp
  show ?case
  proof (cases "n = 0")
    case True
    then have "ds = []" by (simp add: ds_def differences_to_def)
    with True dlt gd show ?thesis
      unfolding step snoc
      by (simp add: match_step_def smallest_def first_index_of_def)
  next
    case False
    then have ne: "ds \<noteq> []" and len: "length ds = n"
      by (simp_all add: ds_def differences_to_def)
    define m where "m = smallest ds"
    define s2 where "s2 = second_smallest ds"
    define fi where "fi = first_index_of m ds"
    have IH: "fold (match_step k keypoints) [0..<n] (-1, FLT_MAX, 0) =
       (int fi, m, if n = 1 then FLT_MAX else s2)"
      using Suc False by (simp add: ds_def m_def s2_def fi_def)
    have m_Min: "m = Min (set ds)" by (simp add: m_def smallest_def)
    have A: "Min (set (ds @ [d])) = min d (Min (set ds))" using ne by simp
    have min_snoc: "smallest (ds @ [d]) = (if d < m then d else m)"
      unfolding smallest_def A m_Min [symmetric] by (simp add: min_def)
    have s0: "sort ds ! 0 = m" using ne by (simp add: sort_nth_0 m_Min)
    have sec: "second_smallest (ds @ [d]) =
       (if d < m then m else if n = 1 then d else if d < s2 then d else s2)"
    proof -
      have "insort d (sort ds) ! 1 =
        (if d < sort ds ! 0 then sort ds ! 0
         else if length (sort ds) = 1 then d
         else if d < sort ds ! 1 then d else sort ds ! 1)"
        by (rule insort_nth_1) (use ne sort_not_Nil in simp_all)
      then show ?thesis
        by (simp only: second_smallest_def sort_snoc s0 length_sort len s2_def)
    qed
    have fst_idx: "first_index_of (if d < m then d else m) (ds @ [d]) = (if d < m then n else fi)"
      using first_index_snoc_less [OF ne, of d] first_index_snoc_keep [OF ne, of d] len
      by (simp add: m_Min fi_def)
    have "match_step k keypoints n (int fi, m, if n = 1 then FLT_MAX else s2) =
       (int (if d < m then n else fi), (if d < m then d else m),
        (if d < m then m else if n = 1 then d else if d < s2 then d else s2))"
      using dlt by (simp add: match_step_def gd)
    then show ?thesis
      unfolding step snoc IH min_snoc sec fst_idx using False by simp
  qed
qed

text \<open>The two distances of the probe with the zero descriptor to \<open>absorbed_references\<close>.\<close>

lemma absorbed_difference_0:
  "get_keypoint_difference blank_keypoint (absorbed_references ! 0) = Finite (9586981 / 2 ^ 25)"
proof -
  define v :: real where "v = 9586981 / 2 ^ 25"
  define S where "S = (\<lambda>i::nat. if i = 0 then 0 else v)"
  have v0: "0 < v" "\<bar>v\<bar> \<le> FLT_MAX" by (simp_all add: v_def FLT_MAX_def)
  have Rv: "round32 v = Finite v"
    by (rule round32_exact [of v 9586981 "- 25"]) (simp_all add: v_def FLT_MAX_def power_int_minus)
  have Rm: "round32 (- v) = Finite (- v)"
    by (rule round32_exact [of "- v" "- 9586981" "- 25"])
      (simp_all add: v_def FLT_MAX_def power_int_minus)
  have R0: "round32 0 = Finite 0" by (rule round32_grid) simp_all
  have nth: "unit_descriptor 0 v ! i = (if i = 0 then v else 0)" if "i < 128" for i
    using that by (simp add: unit_descriptor_def nth_list_update)
  have "fold (\<lambda>i diff. f32_add diff (f32_abs (f32_sub (Finite (replicate 128 0 ! i))
      (Finite (unit_descriptor 0 v ! i))))) [0..<128] (Finite (S 0)) = Finite (S 128)"
  proof (rule difference_fold_steps)
    fix i :: nat
    assume "i < 128"
    then show "f32_add (Finite (S i)) (f32_abs (f32_sub (Finite (replicate 128 0 ! i))
        (Finite (unit_descriptor 0 v ! i)))) = Finite (S (Suc i))"
      using v0 by (simp add: nth S_def f32_sub_finite Rv Rm R0)
  qed
  then show ?thesis
    by (simp add: get_keypoint_difference_def MAR_SIFT_NBO_def MAR_SIFT_NBP_def S_def
        absorbed_references_def blank_keypoint_def test_keypoint_def v_def)
qed

lemma absorbed_difference_1:
  "get_keypoint_difference blank_keypoint (absorbed_references ! 1) = Finite 1"
proof -
  define w :: real where "w = 1 / 2 ^ 25"
  define S where "S = (\<lambda>i::nat. if i = 0 then 0 else (1::real))"
  have w0: "0 < w" by (simp add: w_def)
  have Rm: "round32 (- w) = Finite (- w)"
    by (rule round32_exact [of "- w" "- 1" "- 25"]) (simp_all add: w_def FLT_MAX_def power_int_minus)
  have R1: "round32 1 = Finite 1" "round32 (- 1) = Finite (- 1)"
    by (rule round32_grid; simp)+
  have Ra: "round32 (1 + w) = Finite 1"
  proof (rule round32_nearest [where e = 0 and z = 8388608])
    show "binade 253 (1 + w) = 0" by (rule binade_eq) (simp_all add: w_def)
  qed (simp_all add: w_def FLT_MAX_def)
  have nth: "(1 # replicate 127 w) ! i = (if i = 0 then 1 else w)" if "i < 128" for i
    using that by (simp add: nth_Cons')
  have "fold (\<lambda>i diff. f32_add diff (f32_abs (f32_sub (Finite (replicate 128 0 ! i))
      (Finite ((1 # replicate 127 w) ! i))))) [0..<128] (Finite (S 0)) = Finite (S 128)"
  proof (rule difference_fold_steps)
    fix i :: nat
    assume "i < 128"
    then show "f32_add (Finite (S i)) (f32_abs (f32_sub (Finite (replicate 128 0 ! i))
        (Finite ((1 # replicate 127 w) ! i)))) = Finite (S (Suc i))"
      using w0 by (simp add: nth S_def f32_sub_finite Rm R1 Ra)
  qed
  then show ?thesis
    by (simp add: get_keypoint_difference_def MAR_SIFT_NBO_def MAR_SIFT_NBP_def S_def
        absorbed_references_def blank_keypoint_def test_keypoint_def w_def)
qed

text \<open>
  Claim C2, as stated. With no reference the reported distance is \<open>+infinity\<close>: the
  code reports \<open>FLT_MAX\<close>, a finite value. And the distances are L1 distances: the
  zero descriptor has the L1 distances \<open>d1 = 9586981 / 2^25\<close> and
  \<open>d2 = 1 + 127 / 2^25\<close> to the two references of \<open>absorbed_references\<close>, with
  \<open>d1 * 3.5 \<le> d2\<close>, and the code, whose binary32 sum for the second one is 1,
  returns -1.
\<close>

theorem best_match_empty_counterexample:
  "get_best_keypoint_match blank_keypoint [] 0 = (-1, 340282346638528859811704183484516925440) \<and>
   get_best_keypoint_match blank_keypoint absorbed_references 2 = (-1, 9586981 / 2 ^ 25) \<and>
   l1_distance (descriptor blank_keypoint) (descriptor (absorbed_references ! 0)) = 9586981 / 2 ^ 25 \<and>
   l1_distance (descriptor blank_keypoint) (descriptor (absorbed_references ! 1)) = 1 + 127 / 2 ^ 25 \<and>
   (9586981 / 2 ^ 25 :: real) * 3.5 \<le> 1 + 127 / 2 ^ 25"
proof -
  have e: "get_best_keypoint_match blank_keypoint [] 0 = (-1, 340282346638528859811704183484516925440)"
    by (simp add: get_best_keypoint_match_def FLT_MAX_def MAR_UNIQUE_KEYPOINT_THRESHOLD_def)
  have upt: "[0..<2] = [0, 1]" by (simp add: upt_rec)
  have m: "get_best_keypoint_match blank_keypoint absorbed_references 2 = (-1, 9586981 / 2 ^ 25)"
    using absorbed_difference_0 absorbed_difference_1
    by (simp add: get_best_keypoint_match_def upt match_step_def FLT_MAX_def
        MAR_UNIQUE_KEYPOINT_THRESHOLD_def)
  have l0: "l1_distance (descriptor blank_keypoint) (descriptor (absorbed_references ! 0)) =
      9586981 / 2 ^ 25"
  proof -
    have "l1_distance (unit_descriptor 0 0) (unit_descriptor 0 (9586981 / 2 ^ 25)) = 9586981 / 2 ^ 25"
      by (subst l1_distance_unit) simp_all
    moreover have "unit_descriptor 0 0 = replicate 128 0"
      by (simp add: unit_descriptor_def list_update_same_conv)
    ultimately show ?thesis
      by (simp add: absorbed_references_def blank_keypoint_def test_keypoint_def)
  qed
  have l1: "l1_distance (descriptor blank_keypoint) (descriptor (absorbed_references ! 1)) =
      1 + 127 / 2 ^ 25"
  proof -
    have "(\<Sum>i<128. \<bar>replicate 128 (0::real) ! i - (1 # replicate 127 (1 / 2 ^ 25)) ! i\<bar>) =
        (\<Sum>i\<in>{..<128::nat}. if i = 0 then 1 else 1 / 2 ^ 25)"
      by (rule sum.cong) (auto simp add: nth_Cons')
    also have "\<dots> = (\<Sum>i\<in>{..<128::nat}. (if i = 0 then 1 - 1 / 2 ^ 25 else 0) + 1 / 2 ^ 25)"
      by (rule sum.cong) auto
    also have "\<dots> = 1 + 127 / 2 ^ 25" by (simp add: sum.distrib)
    finally show ?thesis
      by (simp add: l1_distance_def absorbed_references_def blank_keypoint_def test_keypoint_def)
  qed
  show ?thesis by (intro conjI e m l0 l1) simp
qed

text \<open>
  Claim C2, amended: the distances are those that \<open>get_keypoint_difference\<close> computes,
  the binary32 sums, in index order, of the binary32 values \<open>|q_i - r_i|\<close>. When
  every one of them is below \<open>FLT_MAX\<close>, \<open>get_best_keypoint_match\<close> returns the first
  index of the smallest distance \<open>d1\<close> exactly when \<open>d1 * 3.5 \<le> d2\<close>, and -1
  otherwise, where \<open>d2\<close> is the second smallest distance, or \<open>FLT_MAX\<close> when there is
  one reference only; with no reference it returns -1 and reports \<open>FLT_MAX\<close>; in all
  other cases it reports \<open>d1\<close>.
\<close>

theorem get_best_keypoint_match_spec:
  assumes "\<forall>i<n. f32_less (get_keypoint_difference k (keypoints ! i)) (Finite FLT_MAX)"
  shows "get_best_keypoint_match k keypoints n =
     (if n = 0 then (-1, FLT_MAX)
      else let ds = differences_to k keypoints n;
               d1 = smallest ds;
               d2 = (if n = 1 then FLT_MAX else second_smallest ds)
           in (if d1 * 3.5 \<le> d2 then int (first_index_of d1 ds) else -1, d1))"
proof (cases "n = 0")
  case True
  then show ?thesis
    by (simp add: get_best_keypoint_match_def FLT_MAX_def MAR_UNIQUE_KEYPOINT_THRESHOLD_def)
next
  case False
  then have "0 < n" by simp
  from match_loop_invariant [OF this assms] False show ?thesis
    by (simp add: get_best_keypoint_match_def MAR_UNIQUE_KEYPOINT_THRESHOLD_def Let_def)
qed

section \<open>The ellipse predicate\<close>

lemma sin_three_quarters: "67 / 100 \<le> sin (3 / 4 :: real)"
proof -
  have five: "{..<5::nat} = {0, 1, 2, 3, 4}" by auto
  have co: "sin_coeff 2 = 0" "sin_coeff 3 = - 1 / 6" "sin_coeff 4 = 0"
    unfolding sin_coeff_def by (simp_all add: fact_numeral)
  have co1: "sin_coeff 1 = 1" by (simp add: sin_coeff_Suc)
  have "(\<Sum>m<5. sin_coeff m * (3 / 4 :: real) ^ m) = 3 / 4 - (3 / 4) ^ 3 / 6"
    unfolding five using co1 by (simp add: co)
  with Maclaurin_sin_bound [of "3 / 4" 5]
  have "\<bar>sin (3 / 4 :: real) - (3 / 4 - (3 / 4) ^ 3 / 6)\<bar> \<le> inverse (fact 5) * \<bar>3 / 4\<bar> ^ 5"
    by simp
  moreover have "inverse (fact 5) * \<bar>3 / 4 :: real\<bar> ^ 5 \<le> 1 / 400"
    by (simp add: eval_nat_numeral)
  moreover have "(679 / 1000 :: real) \<le> 3 / 4 - (3 / 4) ^ 3 / 6"
    by (simp add: eval_nat_numeral)
  ultimately show ?thesis by linarith
qed

lemma cos_three_quarters: "71 / 100 \<le> cos (3 / 4 :: real)"
proof -
  have "\<bar>sin (3 / 8 :: real)\<bar> \<le> 3 / 8" using abs_sin_x_le_abs_x [of "3 / 8"] by simp
  then have "sin (3 / 8 :: real) ^ 2 \<le> (3 / 8) ^ 2"
    by (metis abs_ge_zero power2_abs power_mono)
  moreover have "cos (3 / 4 :: real) = 1 - 2 * sin (3 / 8) ^ 2"
    using cos_double_sin [of "3 / 8 :: real"] by simp
  ultimately show ?thesis by (simp add: power2_eq_square)
qed

text \<open>
  The point \<open>(2, 2)\<close> and the ellipse at the origin with \<open>a = 2\<close>, \<open>b = 1\<close>,
  \<open>theta = 3/4\<close>: the code rotates the point to about \<open>(0.1, 2.8)\<close>, outside the
  ellipse whatever the last bits of the operations are.
\<close>

lemma rotated_point_outside: "\<not> is_point_in_ellipse 2 2 0 0 2 1 (3 / 4)"
proof -
  have R: "round32 2 = Finite 2" "round32 (3 / 4) = Finite (3 / 4)" "round32 4 = Finite 4"
    "round32 16 = Finite 16" "round32 1 = Finite 1"
    by (rule round32_grid; simp)+
  have e: "(1 :: real) / 2 ^ 19 \<le> 1 / 1000" by simp
  have "\<bar>sin (3 / 4 :: real)\<bar> \<le> 32" using abs_sin_le_one [of "3 / 4 :: real"] by linarith
  from round32_near [OF this] obtain s
    where s: "round32 (sin (3 / 4)) = Finite s" and s': "\<bar>s - sin (3 / 4)\<bar> \<le> 1 / 2 ^ 19"
    by blast
  have "\<bar>cos (3 / 4 :: real)\<bar> \<le> 32" using abs_cos_le_one [of "3 / 4 :: real"] by linarith
  from round32_near [OF this] obtain c
    where c: "round32 (cos (3 / 4)) = Finite c" and c': "\<bar>c - cos (3 / 4)\<bar> \<le> 1 / 2 ^ 19"
    by blast
  have sb: "66 / 100 \<le> s" "s \<le> 101 / 100"
    using s' e sin_three_quarters sin_le_one [of "3 / 4 :: real"] by linarith+
  have cb: "70 / 100 \<le> c" "c \<le> 101 / 100"
    using c' e cos_three_quarters cos_le_one [of "3 / 4 :: real"] by linarith+
  have "\<bar>c * 2\<bar> \<le> 32" using cb by simp
  from round32_near [OF this] obtain p
    where p: "round32 (c * 2) = Finite p" and p': "\<bar>p - c * 2\<bar> \<le> 1 / 2 ^ 19"
    by blast
  have "\<bar>s * 2\<bar> \<le> 32" using sb by simp
  from round32_near [OF this] obtain q
    where q: "round32 (s * 2) = Finite q" and q': "\<bar>q - s * 2\<bar> \<le> 1 / 2 ^ 19"
    by blast
  have pb: "139 / 100 \<le> p" "p \<le> 203 / 100" using p' e cb by linarith+
  have qb: "131 / 100 \<le> q" "q \<le> 203 / 100" using q' e sb by linarith+
  have "\<bar>p - q\<bar> \<le> 32" using pb qb by linarith
  from round32_near [OF this] obtain rx
    where rx: "round32 (p - q) = Finite rx" and rx': "\<bar>rx - (p - q)\<bar> \<le> 1 / 2 ^ 19"
    by blast
  have "\<bar>q + p\<bar> \<le> 32" using pb qb by linarith
  from round32_near [OF this] obtain ry
    where ry: "round32 (q + p) = Finite ry" and ry': "\<bar>ry - (q + p)\<bar> \<le> 1 / 2 ^ 19"
    by blast
  have rxb: "\<bar>rx\<bar> \<le> 1" using rx' e pb qb by linarith
  have ryb: "269 / 100 \<le> ry" "ry \<le> 5" using ry' e pb qb by linarith+
  have x2: "0 \<le> rx * rx" "rx * rx \<le> 1"
    using rxb abs_mult_self_eq [of rx] mult_mono [of "\<bar>rx\<bar>" 1 "\<bar>rx\<bar>" 1] by simp_all
  then have "\<bar>rx * rx\<bar> \<le> 32" by linarith
  from round32_near [OF this] x2(1) obtain a1
    where a1: "round32 (rx * rx) = Finite a1" and a1': "\<bar>a1 - rx * rx\<bar> \<le> 1 / 2 ^ 19" "0 \<le> a1"
    by blast
  have a1b: "a1 \<le> 2" using a1' e x2 by linarith
  have "\<bar>a1 / 16\<bar> \<le> 32" using a1' a1b by simp
  moreover have "0 \<le> a1 / 16" using a1' by simp
  ultimately obtain q1 where q1: "round32 (a1 / 16) = Finite q1" and q1': "0 \<le> q1"
    "\<bar>q1 - a1 / 16\<bar> \<le> 1 / 2 ^ 19"
    using round32_near [of "a1 / 16"] by blast
  have q1b: "q1 \<le> 1" using q1' a1b e by linarith
  have y2: "7 \<le> ry * ry" "ry * ry \<le> 25"
    using ryb mult_mono [of "269 / 100" ry "269 / 100" ry] mult_mono [of ry 5 ry 5] by simp_all
  then have "\<bar>ry * ry\<bar> \<le> 32" by linarith
  from round32_near [OF this] obtain a2
    where a2: "round32 (ry * ry) = Finite a2" and a2': "\<bar>a2 - ry * ry\<bar> \<le> 1 / 2 ^ 19"
    by blast
  have a2b: "69 / 10 \<le> a2" "a2 \<le> 26" using a2' e y2 by linarith+
  have "\<bar>a2 / 4\<bar> \<le> 32" using a2b by simp
  from round32_near [OF this] obtain q2
    where q2: "round32 (a2 / 4) = Finite q2" and q2': "\<bar>q2 - a2 / 4\<bar> \<le> 1 / 2 ^ 19"
    by blast
  have q2b: "17 / 10 \<le> q2" "q2 \<le> 7" using q2' e a2b by linarith+
  have "\<bar>q1 + q2\<bar> \<le> 32" using q1' q1b q2b by linarith
  from round32_near [OF this] obtain t
    where t: "round32 (q1 + q2) = Finite t" and t': "\<bar>t - (q1 + q2)\<bar> \<le> 1 / 2 ^ 19"
    by blast
  have "\<not> t < 1" using t' e q1' q2b by linarith
  then show ?thesis
    by (simp add: is_point_in_ellipse_def Let_def f32_sub_finite R s c p q rx ry a1 q1 a2 q2 t)
qed

text \<open>
  Claim C6, as stated, in exact arithmetic: the point is rotated by
  \<open>-sign(a - b) * theta\<close>. For the point \<open>(2, 2)\<close> and the ellipse at the origin
  with \<open>a = 2\<close>, \<open>b = 1\<close>, \<open>theta = 3/4\<close> the predicate of the specification holds
  and the code returns 0. For the point \<open>(0, 0)\<close> and the ellipse at the origin with
  \<open>a = b = 2^-100\<close>, \<open>theta = 0\<close> the predicate of the specification holds as well;
  in the code \<open>a * a\<close> is rounded to 0, the quotients are NaN and the result is 0.
\<close>

theorem point_in_ellipse_rotation_counterexample:
  "\<not> is_point_in_ellipse 2 2 0 0 2 1 (3 / 4) \<and> point_in_ellipse_spec 2 2 0 0 2 1 (3 / 4) \<and>
   \<not> is_point_in_ellipse 0 0 0 0 (1 / 2 ^ 100) (1 / 2 ^ 100) 0 \<and>
   point_in_ellipse_spec 0 0 0 0 (1 / 2 ^ 100) (1 / 2 ^ 100) 0"
proof -
  define s :: real where "s = sin (3 / 4)"
  define c :: real where "c = cos (3 / 4)"
  have sc: "s\<^sup>2 + c\<^sup>2 = 1" by (simp add: s_def c_def)
  have "(66 / 100) * (70 / 100) \<le> s * c"
    using sin_three_quarters cos_three_quarters by (intro mult_mono) (simp_all add: s_def c_def)
  then have low: "1 / 6 < s * c" by simp
  have "(c * 2 + s * 2)\<^sup>2 / 16 + (c * 2 - s * 2)\<^sup>2 / 4 = 5 / 4 * (s\<^sup>2 + c\<^sup>2) - 3 / 2 * (s * c)"
    by (simp add: power2_eq_square field_simps)
  then have "(c * 2 + s * 2)\<^sup>2 / 16 + (c * 2 - s * 2)\<^sup>2 / 4 < 1"
    using low sc by simp
  then have spec: "point_in_ellipse_spec 2 2 0 0 2 1 (3 / 4)"
    by (simp add: point_in_ellipse_spec_def rotate2_def s_def c_def)
  have R: "round32 0 = Finite 0" "round32 1 = Finite 1"
    by (rule round32_grid; simp)+
  have U: "round32 (1 / 2 ^ 100 * (1 / 2 ^ 100)) = Finite 0"
  proof (rule round32_nearest [where e = "- 126" and z = 0])
    show "binade 253 (1 / 2 ^ 100 * (1 / 2 ^ 100)) = - 126"
      by (rule binade_small) (simp add: power_int_minus field_simps)
  qed (simp_all add: FLT_MAX_def power_int_minus field_simps)
  have under: "\<not> is_point_in_ellipse 0 0 0 0 (1 / 2 ^ 100) (1 / 2 ^ 100) 0"
    using U by (simp add: is_point_in_ellipse_def Let_def f32_sub_finite R signed_inf_def)
  have spec0: "point_in_ellipse_spec 0 0 0 0 (1 / 2 ^ 100) (1 / 2 ^ 100) 0"
    by (simp add: point_in_ellipse_spec_def rotate2_def)
  show ?thesis by (intro conjI rotated_point_outside spec under spec0)
qed

text \<open>
  Claim C6, amended: \<open>is_point_in_ellipse\<close> works in binary32, every operation rounded
  to nearest. It translates the point by \<open>-(cx, cy)\<close>, rotates the result by
  \<open>+ s * theta\<close>, where \<open>s\<close> is 1 if \<open>a > b\<close> and -1 otherwise, and returns true
  exactly when \<open>rx * rx / (a * a * 4) + ry * ry / (b * b * 4) < 1\<close>; the comparison
  is false when the sum is NaN, as it is when a product \<open>a * a * 4\<close> is 0 and the
  numerator over it is 0 too.
\<close>

theorem is_point_in_ellipse_rotation:
  "is_point_in_ellipse px py cx cy a b theta \<longleftrightarrow>
     (case rotate2_f32 (f32_mul (Finite theta) (Finite (if a > b then 1 else - 1)))
             (f32_sub (Finite px) (Finite cx), f32_sub (Finite py) (Finite cy)) of
        (rx, ry) \<Rightarrow>
          f32_less
            (f32_add (f32_div (f32_mul rx rx) (f32_mul (f32_mul (Finite a) (Finite a)) (Finite 4)))
                     (f32_div (f32_mul ry ry) (f32_mul (f32_mul (Finite b) (Finite b)) (Finite 4))))
            (Finite 1))"
  by (simp add: is_point_in_ellipse_def rotate2_f32_def Let_def)


section \<open>Facts about the test data\<close>

lemma test_keypoint_sel [simp]:
  "kp_x (test_keypoint x y d) = x" "kp_y (test_keypoint x y d) = y"
  "descriptor (test_keypoint x y d) = d"
  by (simp_all add: test_keypoint_def)

lemma seeded_nth:
  "i < 10 \<Longrightarrow>
   seeded_keypoints ! i = test_keypoint (real i) (real (i * i)) (unit_descriptor (40 + i) 10)"
  by (simp add: seeded_keypoints_def nth_append)

lemma length_seeded: "length seeded_keypoints = 512"
  by (simp add: seeded_keypoints_def)

text \<open>
  The distances to the references of \<open>seeded_keypoints\<close>, for a probe whose one entry
  \<open>c\<close> is a multiple of \<open>1/1024\<close>: no operation rounds.
\<close>

lemma difference_seeded:
  assumes "i < 10" "j < 10" "c * 1024 \<in> \<int>" "\<bar>c\<bar> \<le> 4096"
  shows "get_keypoint_difference (test_keypoint x y (unit_descriptor (40 + i) c)) (seeded_keypoints ! j) =
     Finite (if i = j then \<bar>c - 10\<bar> else \<bar>c\<bar> + 10)"
  using assms difference_unit [of "40 + i" "40 + j" c 10 x y "real j" "real (j * j)"]
  by (simp add: seeded_nth)

lemma upt_10: "[0..<10] = [0, 1, 2, 3, 4, 5, 6, 7, 8, 9]"
  by code_simp

text \<open>
  A probe with the value \<open>c = 10 + e\<close> or \<open>c = 10 - e\<close>, \<open>0 \<le> e < 4\<close>, in the
  dimension of reference \<open>i\<close> matches that reference at distance \<open>e\<close>.
\<close>

lemma match_seeded:
  assumes "i < 10" "\<bar>c - 10\<bar> < 4" "c * 1024 \<in> \<int>"
  shows "get_best_keypoint_match (test_keypoint x y (unit_descriptor (40 + i) c)) seeded_keypoints 10
     = (int i, \<bar>c - 10\<bar>)"
proof -
  define e where "e = \<bar>c - 10\<bar>"
  define f where "f = \<bar>c\<bar> + 10"
  define q where "q = test_keypoint x y (unit_descriptor (40 + i) c)"
  have c: "6 < c" "c < 14" using assms(2) by arith+
  have ef: "e < 4" "0 \<le> e" "16 < f" "e < f" "e * 3.5 \<le> f" "\<not> f < e" "\<not> f < f"
    using c by (simp_all add: e_def f_def abs_if)
  have F: "e < FLT_MAX" "f < FLT_MAX" "\<not> FLT_MAX < e" using c
    by (simp_all add: FLT_MAX_def e_def f_def abs_if)
  have "\<bar>c\<bar> \<le> 4096" using c by simp
  then have d: "get_keypoint_difference q (seeded_keypoints ! j) = Finite (if i = j then e else f)"
    if "j < 10" for j
    using that assms(1,3) by (simp add: difference_seeded e_def f_def q_def)
  have "i = 0 \<or> i = 1 \<or> i = 2 \<or> i = 3 \<or> i = 4 \<or> i = 5 \<or> i = 6 \<or> i = 7 \<or> i = 8 \<or> i = 9"
    using assms(1) by presburger
  then have "fold (match_step q seeded_keypoints) [0..<10] (-1, FLT_MAX, 0) = (int i, e, f)"
    by (elim disjE) (simp_all add: upt_10 match_step_def d ef F)
  then have "get_best_keypoint_match q seeded_keypoints 10 = (int i, e)"
    using ef by (simp add: get_best_keypoint_match_def MAR_UNIQUE_KEYPOINT_THRESHOLD_def)
  then show ?thesis by (simp add: e_def q_def)
qed

text \<open>
  The origin and the two ellipses of the test data, with the angle 0: every operation
  of \<open>is_point_in_ellipse\<close> is exact, the sums are 12.5 and 0.125.
\<close>

lemma origin_outside: "\<not> is_point_in_ellipse 0 0 100 100 20 20 0"
proof -
  have R: "round32 0 = Finite 0" "round32 1 = Finite 1" "round32 (- 100) = Finite (- 100)"
    "round32 10000 = Finite 10000" "round32 400 = Finite 400" "round32 1600 = Finite 1600"
    "round32 (25 / 4) = Finite (25 / 4)" "round32 (25 / 2) = Finite (25 / 2)"
    by (rule round32_int, simp, simp)+ (rule round32_grid; simp)+
  show ?thesis
    by (simp add: is_point_in_ellipse_def Let_def f32_sub_finite R)
qed

lemma origin_inside: "is_point_in_ellipse 0 0 10 10 20 20 0"
proof -
  have R: "round32 0 = Finite 0" "round32 1 = Finite 1" "round32 (- 10) = Finite (- 10)"
    "round32 100 = Finite 100" "round32 400 = Finite 400" "round32 1600 = Finite 1600"
    "round32 (1 / 16) = Finite (1 / 16)" "round32 (1 / 8) = Finite (1 / 8)"
    by (rule round32_int, simp, simp)+ (rule round32_grid; simp)+
  show ?thesis
    by (simp add: is_point_in_ellipse_def Let_def f32_sub_finite R)
qed

lemma contained_test_augmentation: "contained_keypoints test_augmentation frame = []"
  using origin_outside
  by (simp add: contained_keypoints_def test_augmentation_def mat3_apply_def mat3_zero_def)

lemma contained_origin_augmentation: "contained_keypoints origin_augmentation frame = frame"
  using origin_inside
  by (simp add: contained_keypoints_def origin_augmentation_def test_augmentation_def mat3_apply_def
      mat3_zero_def)

theorem get_best_keypoint_match_spec_witness:
  "list_all (\<lambda>i. f32_less (get_keypoint_difference (test_keypoint 0 0 (unit_descriptor 40 9))
                    (seeded_keypoints ! i)) (Finite FLT_MAX)) [0..<10] \<and>
   get_best_keypoint_match (test_keypoint 0 0 (unit_descriptor 40 9)) seeded_keypoints 10 =
     (if (10::nat) = 0 then (-1, FLT_MAX)
      else let ds = differences_to (test_keypoint 0 0 (unit_descriptor 40 9)) seeded_keypoints 10;
               d1 = smallest ds;
               d2 = (if (10::nat) = 1 then FLT_MAX else second_smallest ds)
           in (if d1 * 3.5 \<le> d2 then int (first_index_of d1 ds) else -1, d1)) \<and>
   get_best_keypoint_match (test_keypoint 0 0 (unit_descriptor 40 9)) seeded_keypoints 10 = (0, 1)"
proof -
  have h: "\<forall>i<10. f32_less (get_keypoint_difference (test_keypoint 0 0 (unit_descriptor 40 9))
              (seeded_keypoints ! i)) (Finite FLT_MAX)"
    using difference_seeded [of 0 _ 9 0 0]
    by (auto simp add: FLT_MAX_def)
  have m: "get_best_keypoint_match (test_keypoint 0 0 (unit_descriptor 40 9)) seeded_keypoints 10 = (0, 1)"
    using match_seeded [of 0 9 0 0] by simp
  have h': "list_all (\<lambda>i. f32_less (get_keypoint_difference (test_keypoint 0 0 (unit_descriptor 40 9))
                    (seeded_keypoints ! i)) (Finite FLT_MAX)) [0..<10]"
    using h by (simp add: list_all_iff)
  show ?thesis
    by (intro conjI h' m get_best_keypoint_match_spec [OF h])
qed

section \<open>The buffers of the best matches\<close>

lemma shift_fold_nth:
  "h \<le> length xs \<Longrightarrow> m < length xs \<Longrightarrow>
   fold (\<lambda>m a. a[m := a ! (m - 1)]) (rev [Suc l..<h]) xs ! m =
     (if l < m \<and> m < h then xs ! (m - 1) else xs ! m)"
proof (induction h arbitrary: xs)
  case 0
  then show ?case by simp
next
  case (Suc h)
  show ?case
  proof (cases "Suc l \<le> h")
    case True
    then have "fold (\<lambda>m a. a[m := a ! (m - 1)]) (rev [Suc l..<Suc h]) xs =
        fold (\<lambda>m a. a[m := a ! (m - 1)]) (rev [Suc l..<h]) (xs[h := xs ! (h - 1)])"
      by simp
    moreover have "fold (\<lambda>m a. a[m := a ! (m - 1)]) (rev [Suc l..<h]) (xs[h := xs ! (h - 1)]) ! m =
        (if l < m \<and> m < h then xs[h := xs ! (h - 1)] ! (m - 1) else xs[h := xs ! (h - 1)] ! m)"
      using Suc.prems by (intro Suc.IH) simp_all
    ultimately show ?thesis
      using Suc.prems True by (auto simp add: nth_list_update)
  next
    case False
    then show ?thesis by auto
  qed
qed

lemma shift_fold_length: "length (fold (\<lambda>m a. a[m := a ! (m - 1)]) ms xs) = length xs"
  by (induction ms arbitrary: xs) simp_all

lemma shift_right_length: "length (shift_right l xs) = length xs"
  unfolding shift_right_def by (rule shift_fold_length)

text \<open>Moving the entries up from slot \<open>l\<close> and writing slot \<open>l\<close>, in one step.\<close>

lemma shift_right_place:
  assumes "length xs = 256" "l < 256"
  shows "(shift_right l xs)[l := v] = take l xs @ v # take (255 - l) (drop l xs)"
proof (rule nth_equalityI)
  show "length ((shift_right l xs)[l := v]) = length (take l xs @ v # take (255 - l) (drop l xs))"
    using assms by (simp add: shift_right_length)
next
  fix m assume "m < length ((shift_right l xs)[l := v])"
  then have m: "m < 256" using assms by (simp add: shift_right_length)
  have sr: "shift_right l xs ! m = (if l < m then xs ! (m - 1) else xs ! m)"
    unfolding shift_right_def MAR_MAX_NUM_OF_MATCHED_KEYPOINTS_def
    using shift_fold_nth [of 256 xs m l] assms m by simp
  show "(shift_right l xs)[l := v] ! m = (take l xs @ v # take (255 - l) (drop l xs)) ! m"
  proof (cases "m < l")
    case True
    then show ?thesis using assms m sr by (simp add: nth_append shift_right_length)
  next
    case False
    show ?thesis
    proof (cases "m = l")
      case True
      then show ?thesis using assms by (simp add: nth_append shift_right_length)
    next
      case ne: False
      with False have "l < m" by simp
      then obtain d where d: "m = Suc (l + d)" using less_imp_Suc_add by blast
      then show ?thesis using assms m sr \<open>l < m\<close>
        by (simp add: nth_append shift_right_length)
    qed
  qed
qed

lemma placed_nth:
  assumes "length xs = 256" "l < 256" "j < 256"
  shows "(take l xs @ v # take (255 - l) (drop l xs)) ! j =
     (if j < l then xs ! j else if j = l then v else xs ! (j - 1))"
proof (cases "j < l")
  case True
  then show ?thesis using assms by (simp add: nth_append)
next
  case False
  show ?thesis
  proof (cases "j = l")
    case True
    then show ?thesis using assms by (simp add: nth_append)
  next
    case ne: False
    with False have "l < j" by simp
    then obtain d where d: "j = Suc (l + d)" using less_imp_Suc_add by blast
    then show ?thesis using assms by (simp add: nth_append)
  qed
qed

lemma find_upt:
  "find P [i..<n] = (if i < n then if P i then Some i else find P [Suc i..<n] else None)"
  by (simp add: upt_conv_Cons)

lemma find_upt_Some:
  assumes "find P [0..<n] = Some l"
  shows "l < n \<and> P l \<and> (\<forall>j<l. \<not> P j)"
proof -
  from assms obtain i where i: "i < length [0..<n]" "P ([0..<n] ! i)" "l = [0..<n] ! i"
    "\<forall>j<i. \<not> P ([0..<n] ! j)"
    unfolding find_Some_iff by blast
  then have "l = i" "i < n" by simp_all
  with i show ?thesis by auto
qed

lemma wf_init_buffers: "wf_buffers init_buffers"
  by (simp add: wf_buffers_def init_buffers_def)

lemma wf_reset_matching: "wf_buffers b \<Longrightarrow> wf_buffers (reset_matching b)"
  by (simp add: wf_buffers_def reset_matching_def)

lemma reset_init_buffers: "reset_matching init_buffers = init_buffers"
  by (simp add: reset_matching_def init_buffers_def)

text \<open>\<open>record_match\<close> on buffers of the declared size, without the inner loops.\<close>

lemma record_match_closed:
  assumes "wf_buffers b"
  shows "record_match rx ry qx qy bd b =
     (if bd < differences b ! 255
      then (case find (\<lambda>l. bd < differences b ! l) [0..<256] of
              None \<Rightarrow> b\<lparr>matched_keypoints := matched_keypoints b + 1\<rparr>
            | Some l \<Rightarrow>
                b\<lparr>matched_keypoints := matched_keypoints b + 1,
                  buf_x := take l (buf_x b) @ rx # take (255 - l) (drop l (buf_x b)),
                  buf_y := take l (buf_y b) @ ry # take (255 - l) (drop l (buf_y b)),
                  buf_u := take l (buf_u b) @ qx # take (255 - l) (drop l (buf_u b)),
                  buf_v := take l (buf_v b) @ qy # take (255 - l) (drop l (buf_v b)),
                  differences := take l (differences b) @ bd # take (255 - l) (drop l (differences b))\<rparr>)
      else b)"
proof (cases "find (\<lambda>l. bd < differences b ! l) [0..<256]")
  case None
  then show ?thesis
    by (simp add: record_match_def place_match_def MAR_MAX_NUM_OF_MATCHED_KEYPOINTS_def)
next
  case (Some l)
  then have "l < 256" using find_upt_Some [of "\<lambda>l. bd < differences b ! l" 256 l] by simp
  with Some assms show ?thesis
    by (simp add: record_match_def place_match_def MAR_MAX_NUM_OF_MATCHED_KEYPOINTS_def
        wf_buffers_def shift_right_place)
qed

lemma wf_record_match: "wf_buffers b \<Longrightarrow> wf_buffers (record_match rx ry qx qy bd b)"
proof -
  assume wf: "wf_buffers b"
  show ?thesis
  proof (cases "find (\<lambda>l. bd < differences b ! l) [0..<256]")
    case None
    with wf show ?thesis by (simp add: record_match_closed) (simp add: wf_buffers_def)
  next
    case (Some l)
    then have "l < 256" using find_upt_Some [of "\<lambda>l. bd < differences b ! l" 256 l] by simp
    with Some wf show ?thesis
      by (simp add: record_match_closed) (simp add: wf_buffers_def MAR_MAX_NUM_OF_MATCHED_KEYPOINTS_def)
  qed
qed

text \<open>The counter goes up by one exactly when the match beats the last entry.\<close>

lemma matched_record_match:
  "matched_keypoints (record_match rx ry qx qy bd b) =
     (if bd < differences b ! 255 then matched_keypoints b + 1 else matched_keypoints b)"
  by (simp add: record_match_def place_match_def MAR_MAX_NUM_OF_MATCHED_KEYPOINTS_def
      split: option.split)

text \<open>The entries of \<open>differences\<close> after a match are the match and old entries.\<close>

lemma differences_record_match_subset:
  assumes "wf_buffers b"
  shows "set (differences (record_match rx ry qx qy bd b)) \<subseteq> insert bd (set (differences b))"
proof (cases "find (\<lambda>l. bd < differences b ! l) [0..<256]")
  case None
  with assms show ?thesis by (auto simp add: record_match_closed)
next
  case (Some l)
  have "set (take l ds) \<subseteq> set ds" "set (take (255 - l) (drop l ds)) \<subseteq> set ds" for ds :: "real list"
    using set_take_subset set_drop_subset by fast+
  with Some assms show ?thesis by (auto simp add: record_match_closed)
qed

lemma list_all_drop_iff:
  "list_all P (drop k xs) \<longleftrightarrow> (\<forall>j. k \<le> j \<and> j < length xs \<longrightarrow> P (xs ! j))"
proof
  assume a: "list_all P (drop k xs)"
  show "\<forall>j. k \<le> j \<and> j < length xs \<longrightarrow> P (xs ! j)"
  proof (intro allI impI)
    fix j assume j: "k \<le> j \<and> j < length xs"
    then have "drop k xs ! (j - k) = xs ! j" by simp
    moreover have "j - k < length (drop k xs)" using j by auto
    ultimately show "P (xs ! j)" using a by (metis list_all_length)
  qed
next
  assume a: "\<forall>j. k \<le> j \<and> j < length xs \<longrightarrow> P (xs ! j)"
  show "list_all P (drop k xs)"
    unfolding list_all_length
  proof (intro allI impI)
    fix i assume "i < length (drop k xs)"
    then have "k + i < length xs" by simp
    then show "P (drop k xs ! i)" using a by simp
  qed
qed

lemma buffers_inv_init: "buffers_inv init_buffers"
  by (simp add: buffers_inv_def wf_init_buffers)
     (simp add: init_buffers_def list_all_length)

lemma buffers_inv_reset: "wf_buffers b \<Longrightarrow> buffers_inv (reset_matching b)"
  by (simp add: buffers_inv_def wf_reset_matching)
     (simp add: reset_matching_def list_all_length)

lemma buffers_inv_record_match:
  assumes inv: "buffers_inv b"
  shows "buffers_inv (record_match rx ry qx qy bd b)"
proof (cases "bd < differences b ! 255")
  case False
  with inv show ?thesis by (simp add: record_match_def MAR_MAX_NUM_OF_MATCHED_KEYPOINTS_def)
next
  case True
  define ds where "ds = differences b"
  define m where "m = matched_keypoints b"
  have wf: "wf_buffers b" and len: "length ds = 256"
    using inv
    by (simp_all add: buffers_inv_def wf_buffers_def ds_def MAR_MAX_NUM_OF_MATCHED_KEYPOINTS_def)
  have le2: "\<forall>j<256. ds ! j \<le> 2"
    using inv len
    by (simp add: buffers_inv_def ds_def list_all_length MAR_MAX_KEYPOINT_DIFFERENCE_def)
  have tail: "\<forall>j. m \<le> j \<and> j < 256 \<longrightarrow> ds ! j = 2"
    using inv len unfolding buffers_inv_def list_all_drop_iff
    by (simp add: ds_def m_def MAR_MAX_KEYPOINT_DIFFERENCE_def)
  have "ds ! 255 \<le> 2" using le2 by simp
  then have bd2: "bd < 2" using True by (simp add: ds_def)
  have "\<exists>x<256::nat. bd < ds ! x" using True unfolding ds_def by (intro exI [of _ 255]) simp
  then have "find (\<lambda>l. bd < ds ! l) [0..<256] \<noteq> None"
    by (simp add: find_None_iff)
  then obtain l where l: "find (\<lambda>l. bd < ds ! l) [0..<256] = Some l" by auto
  then have l256: "l < 256" and first: "\<forall>j<l. \<not> bd < ds ! j"
    using find_upt_Some [of "\<lambda>l. bd < ds ! l" 256 l] by simp_all
  have lm: "l \<le> m" if "m < 256"
  proof (rule ccontr)
    assume "\<not> l \<le> m"
    then have "\<not> bd < ds ! m" using first by simp
    moreover have "ds ! m = 2" using tail that by simp
    ultimately show False using bd2 by simp
  qed
  define ds' where "ds' = take l ds @ bd # take (255 - l) (drop l ds)"
  have len': "length ds' = 256" using len l256 by (simp add: ds'_def)
  have nth': "ds' ! j = (if j < l then ds ! j else if j = l then bd else ds ! (j - 1))"
    if "j < 256" for j
    unfolding ds'_def using placed_nth [OF len l256 that] .
  have rm: "differences (record_match rx ry qx qy bd b) = ds'"
    "matched_keypoints (record_match rx ry qx qy bd b) = m + 1"
    using True l wf by (simp_all add: record_match_closed ds_def ds'_def m_def)
  have A: "list_all (\<lambda>d. d \<le> 2) ds'"
    unfolding list_all_length using len' nth' le2 bd2 l256 by auto
  have B: "list_all (\<lambda>d. d = 2) (drop (m + 1) ds')"
    unfolding list_all_drop_iff
  proof (intro allI impI)
    fix j assume j: "m + 1 \<le> j \<and> j < length ds'"
    then have j256: "j < 256" and "m < 256" using len' by simp_all
    then have "l < j" using lm j by simp
    then have "ds' ! j = ds ! (j - 1)" using nth' [OF j256] by simp
    also have "\<dots> = 2"
    proof -
      have "m \<le> j - 1 \<and> j - 1 < 256" using j j256 by arith
      then show ?thesis using tail by blast
    qed
    finally show "ds' ! j = 2" .
  qed
  show ?thesis
    unfolding buffers_inv_def rm MAR_MAX_KEYPOINT_DIFFERENCE_def
    using A B wf_record_match [OF wf] by simp
qed

lemma buffers_inv_last:
  assumes "buffers_inv b" "matched_keypoints b < 256"
  shows "differences b ! 255 = 2"
  using assms unfolding buffers_inv_def list_all_drop_iff
  by (simp add: wf_buffers_def MAR_MAX_NUM_OF_MATCHED_KEYPOINTS_def MAR_MAX_KEYPOINT_DIFFERENCE_def)

lemma buffers_inv_last_le:
  assumes "buffers_inv b"
  shows "differences b ! 255 \<le> 2"
  using assms
  by (simp add: buffers_inv_def wf_buffers_def list_all_length
      MAR_MAX_NUM_OF_MATCHED_KEYPOINTS_def MAR_MAX_KEYPOINT_DIFFERENCE_def)

lemma buffers_inv_match_frame_step:
  "buffers_inv b \<Longrightarrow> buffers_inv (match_frame_step n initial q b)"
  by (simp add: match_frame_step_def buffers_inv_record_match split: prod.split)

text \<open>
  While the buffers are not full, the pass over the frame counts exactly the accepted
  matches below \<open>MAR_MAX_KEYPOINT_DIFFERENCE\<close>.
\<close>

lemma frame_fold_count:
  assumes "buffers_inv b"
    and "matched_keypoints b + length (close_matches n initial frame) \<le> 256"
  shows "matched_keypoints (fold (match_frame_step n initial) frame b) =
      matched_keypoints b + length (close_matches n initial frame)"
  using assms
proof (induction frame arbitrary: b)
  case Nil
  then show ?case by (simp add: close_matches_def)
next
  case (Cons q frame)
  obtain k bd where kb: "get_best_keypoint_match q initial n = (k, bd)" by force
  let ?b' = "match_frame_step n initial q b"
  have inv': "buffers_inv ?b'" using Cons.prems(1) by (rule buffers_inv_match_frame_step)
  show ?case
  proof (cases "k \<noteq> -1 \<and> bd < 2")
    case True
    then have cm: "close_matches n initial (q # frame) = q # close_matches n initial frame"
      using kb by (simp add: close_matches_def MAR_MAX_KEYPOINT_DIFFERENCE_def)
    with Cons.prems(2) have "matched_keypoints b < 256" by simp
    then have "differences b ! 255 = 2" using Cons.prems(1) buffers_inv_last by simp
    then have m': "matched_keypoints ?b' = matched_keypoints b + 1"
      using True kb by (simp add: match_frame_step_def matched_record_match)
    have "matched_keypoints (fold (match_frame_step n initial) frame ?b') =
        matched_keypoints ?b' + length (close_matches n initial frame)"
      using inv' Cons.prems(2) cm m' by (intro Cons.IH) simp_all
    then show ?thesis using m' cm by simp
  next
    case False
    then have cm: "close_matches n initial (q # frame) = close_matches n initial frame"
      using kb by (auto simp add: close_matches_def MAR_MAX_KEYPOINT_DIFFERENCE_def)
    have "differences b ! 255 \<le> 2" using Cons.prems(1) by (rule buffers_inv_last_le)
    then have m': "matched_keypoints ?b' = matched_keypoints b"
      using False kb by (auto simp add: match_frame_step_def matched_record_match)
    have "matched_keypoints (fold (match_frame_step n initial) frame ?b') =
        matched_keypoints ?b' + length (close_matches n initial frame)"
      using inv' Cons.prems(2) cm m' by (intro Cons.IH) simp_all
    then show ?thesis using m' cm by simp
  qed
qed

lemma frame_pass_count:
  assumes "wf_buffers b" "length (close_matches n initial frame) \<le> 256"
  shows "matched_keypoints (frame_pass n initial frame b) = length (close_matches n initial frame)"
proof -
  have "matched_keypoints (reset_matching b) = 0" by (simp add: reset_matching_def)
  then show ?thesis
    unfolding frame_pass_def
    using frame_fold_count [OF buffers_inv_reset [OF assms(1)], of n initial frame] assms(2)
    by simp
qed

section \<open>Status and transform after a frame\<close>

lemma grow_step_fields:
  "transform (snd (snd (grow_step q s))) = transform (snd (snd s))"
  "transform_inverse (snd (snd (grow_step q s))) = transform_inverse (snd (snd s))"
  "num_initial_keypoints (snd (snd (grow_step q s))) = num_initial_keypoints (snd (snd s))"
  "mser (snd (snd (grow_step q s))) = mser (snd (snd s))"
  by (simp_all add: grow_step_def split: prod.splits)

lemma grow_loop_fields:
  "grow_loop cbuf j s = Inr a' \<Longrightarrow>
   transform a' = transform (snd (snd s)) \<and>
   transform_inverse a' = transform_inverse (snd (snd s)) \<and>
   num_initial_keypoints a' = num_initial_keypoints (snd (snd s)) \<and>
   mser a' = mser (snd (snd s))"
proof (induction cbuf j s rule: grow_loop.induct)
  case (1 cbuf j s)
  show ?case
  proof (cases "j < fst s \<and> fst (snd s) < MAR_MAX_NUMBER_OF_AUGMENTATION_KEYPOINTS")
    case False
    with "1.prems" show ?thesis by (subst (asm) grow_loop.simps) auto
  next
    case True
    show ?thesis
    proof (cases "length cbuf \<le> j")
      case oob: True
      with True "1.prems" show ?thesis by (subst (asm) grow_loop.simps) simp
    next
      case False
      with True "1.prems" have "grow_loop cbuf (j + 1) (grow_step (cbuf ! j) s) = Inr a'"
        by (subst (asm) grow_loop.simps) simp
      with "1.IH" [OF True False] show ?thesis by (simp add: grow_step_fields)
    qed
  qed
qed

lemma add_new_points_fields:
  "add_new_points a frame = Inr a' \<Longrightarrow>
   transform a' = transform a \<and> transform_inverse a' = transform_inverse a \<and>
   num_initial_keypoints a' = num_initial_keypoints a \<and> mser a' = mser a"
  unfolding add_new_points_def by (drule grow_loop_fields) simp

lemma add_new_points_empty:
  "contained_keypoints a frame = [] \<Longrightarrow>
   add_new_points a frame = Inr (a\<lparr>num_potential_keypoints := 0\<rparr>)"
  unfolding add_new_points_def by (subst grow_loop.simps) simp

lemma moved_frame_match:
  assumes "n \<le> 10" "\<bar>c - 10\<bar> < 4" "c * 1024 \<in> \<int>" "q \<in> set (moved_frame c n)"
  shows "fst (get_best_keypoint_match q seeded_keypoints 10) \<noteq> -1 \<and>
     snd (get_best_keypoint_match q seeded_keypoints 10) = \<bar>c - 10\<bar>"
proof -
  from assms(4) obtain i where i: "i < n"
    "q = test_keypoint (200 + real i) (50 + real (i * i)) (unit_descriptor (40 + i) c)"
    by (auto simp add: moved_frame_def)
  then have "i < 10" using assms(1) by simp
  from match_seeded [OF this assms(2,3)] i show ?thesis by simp
qed

lemma length_moved_frame: "length (moved_frame c n) = n"
  by (simp add: moved_frame_def)

lemma accepted_moved_frame:
  assumes "n \<le> 10" "\<bar>c - 10\<bar> < 4" "c * 1024 \<in> \<int>"
  shows "accepted_matches 10 seeded_keypoints (moved_frame c n) = moved_frame c n"
  unfolding accepted_matches_def using moved_frame_match [OF assms] by (intro filter_True) simp

lemma close_moved_frame:
  assumes "n \<le> 10" "\<bar>c - 10\<bar> < 2" "c * 1024 \<in> \<int>"
  shows "close_matches 10 seeded_keypoints (moved_frame c n) = moved_frame c n"
proof -
  have "\<bar>c - 10\<bar> < 4" using assms(2) by simp
  from moved_frame_match [OF assms(1) this assms(3)] assms(2) show ?thesis
    unfolding close_matches_def MAR_MAX_KEYPOINT_DIFFERENCE_def by (intro filter_True) simp
qed

lemma far_moved_frame:
  assumes "n \<le> 10" "\<bar>c - 10\<bar> < 4" "2 \<le> \<bar>c - 10\<bar>" "c * 1024 \<in> \<int>"
  shows "close_matches 10 seeded_keypoints (moved_frame c n) = []"
  unfolding close_matches_def MAR_MAX_KEYPOINT_DIFFERENCE_def
  using moved_frame_match [OF assms(1,2,4)] assms(3) by (intro filter_False) simp

lemma update_augmentation_unfold:
  assumes "matching_phase a frame = (b, initial)"
  shows "update_augmentation solve frame a =
     (if matched_keypoints b < 5
      then Inr (a\<lparr>initial_keypoints := initial\<rparr>, MAR_ERROR_TOO_FEW_MATCHING_KEYPOINTS)
      else if 256 < matched_keypoints b then Inl OutOfBounds
      else if skew_rejected (solve (design_rows b) (rhs_entries b)) \<or>
              scale_rejected (solve (design_rows b) (rhs_entries b))
      then Inr (a\<lparr>initial_keypoints := initial\<rparr>, MAR_ERROR_TOO_FEW_MATCHING_KEYPOINTS)
      else (case add_new_points
                   (a\<lparr>initial_keypoints := initial,
                      transform := assemble_transform (solve (design_rows b) (rhs_entries b))\<rparr>) frame of
              Inl f \<Rightarrow> Inl f
            | Inr a3 \<Rightarrow> Inr (a3, MAR_ERROR_NONE)))"
proof -
  have "list_ex (\<lambda>j. 256 \<le> j) [0..<n] \<longleftrightarrow> 256 < n" for n :: nat
    by (auto simp add: list_ex_iff)
  then show ?thesis
    using assms
    by (simp add: update_augmentation_def Let_def fill_system_def fit_read_indices_def
        MAR_MIN_NUM_OF_MATCHED_KEYPOINTS_def MAR_MAX_NUM_OF_MATCHED_KEYPOINTS_def not_le)
qed

text \<open>
  The two tests on the solution, when the sum and the difference are multiples of
  \<open>1/1024\<close> up to 8192 and are not rounded.
\<close>

lemma skew_rejected_grid:
  assumes "(t1 + t2) * 1024 \<in> \<int>" "\<bar>t1 + t2\<bar> \<le> 8192"
  shows "skew_rejected (t0, t1, t2, t3, t4, t5) \<longleftrightarrow> \<bar>t1 + t2\<bar> > 1000"
  using round32_grid [OF assms] by (simp add: skew_rejected_def MAR_AUGMENT_MAX_SKEW_def)

lemma scale_rejected_grid:
  assumes "(t0 - t3) * 1024 \<in> \<int>" "\<bar>t0 - t3\<bar> \<le> 8192"
  shows "scale_rejected (t0, t1, t2, t3, t4, t5) \<longleftrightarrow> \<bar>t0 - t3\<bar> > 1000"
  using round32_grid [OF assms]
  by (simp add: scale_rejected_def MAR_AUGMENT_MAX_SCALE_RATIO_def f32_sub_finite)

section \<open>Status and transform after a frame: the claim\<close>

lemma contained_keypoints_update [simp]:
  "contained_keypoints (a\<lparr>initial_keypoints := i\<rparr>) frame = contained_keypoints a frame"
  "contained_keypoints (a\<lparr>transform := t\<rparr>) frame = contained_keypoints a frame"
  by (simp_all add: contained_keypoints_def)

lemma matching_phase_test_augmentation:
  "matching_phase test_augmentation frame =
     (frame_pass 10 seeded_keypoints frame init_buffers, seeded_keypoints)"
  by (simp add: matching_phase_def local_pass_def contained_test_augmentation
      MAR_MIN_NUM_OF_MATCHED_KEYPOINTS_def)
     (simp add: init_buffers_def test_augmentation_def)

text \<open>
  The frame \<open>moved_frame 10 5\<close> gives five matches at distance 0: the solution of the
  solver is committed when it passes the two tests.
\<close>

lemma update_moved_frame_passing:
  assumes "\<not> skew_rejected T" "\<not> scale_rejected T"
  shows "update_augmentation (fixed_solver T) (moved_frame 10 5) test_augmentation =
     Inr (test_augmentation\<lparr>transform := assemble_transform T, num_potential_keypoints := 0\<rparr>,
          MAR_ERROR_NONE)"
proof -
  have m: "matched_keypoints (frame_pass 10 seeded_keypoints (moved_frame 10 5) init_buffers) = 5"
    using frame_pass_count [OF wf_init_buffers, of 10 seeded_keypoints "moved_frame 10 5"]
    by (simp add: close_moved_frame length_moved_frame)
  have i: "test_augmentation\<lparr>initial_keypoints := seeded_keypoints\<rparr> = test_augmentation"
    by (simp add: test_augmentation_def)
  show ?thesis
    unfolding update_augmentation_unfold [OF matching_phase_test_augmentation]
    using assms
    by (simp add: m fixed_solver_def add_new_points_empty contained_test_augmentation i)
qed

lemma update_moved_frame:
  "update_augmentation (fixed_solver (1001, 0, 0, 1, 30, -15)) (moved_frame 10 5) test_augmentation =
     Inr (test_augmentation
            \<lparr>transform := ((1001, 0, 30), (0, 1, -15), (0, 0, 1)), num_potential_keypoints := 0\<rparr>,
          MAR_ERROR_NONE)"
  using update_moved_frame_passing [of "(1001, 0, 0, 1, 30, -15)"]
  by (simp add: skew_rejected_grid scale_rejected_grid assemble_transform_def)

text \<open>The binary32 difference of 1000 and \<open>-2^-40\<close> is 1000.\<close>

lemma scale_absorbed: "\<not> scale_rejected (1000, 0, 0, - (1 / 2 ^ 40), 0, 0)"
proof -
  have "round32 (1000 - (- (1 / 2 ^ 40))) = Finite 1000"
  proof (rule round32_nearest [where e = 9 and z = 16384000])
    show "binade 253 (1000 - (- (1 / 2 ^ 40))) = 9" by (rule binade_eq) simp_all
  qed (simp_all add: FLT_MAX_def)
  then show ?thesis
    by (simp add: scale_rejected_def MAR_AUGMENT_MAX_SCALE_RATIO_def f32_sub_finite)
qed

text \<open>
  Claim C1, as stated. The status is \<open>InsufficientMatches\<close> only if fewer than five
  matches were accepted or the fitted parameters violate a bound: in the frame
  \<open>moved_frame 8 5\<close> each of the five keypoints passes the uniqueness test against
  its reference, at distance 2; none is counted, no fit is made, and the status is
  \<open>MAR_ERROR_TOO_FEW_MATCHING_KEYPOINTS\<close>, although the parameters the solver would
  return violate no bound. And the status is \<open>InsufficientMatches\<close> if
  \<open>|m00 - m11| > 1000\<close>: for the parameters \<open>m00 = 1000\<close>, \<open>m11 = -2^-40\<close> the
  code, whose binary32 difference is 1000, commits the transform with the status
  \<open>MAR_ERROR_NONE\<close>.
\<close>

theorem update_status_counterexample:
  "update_augmentation (fixed_solver (1, 0, 0, 1, 0, 0)) (moved_frame 8 5) test_augmentation =
     Inr (test_augmentation, MAR_ERROR_TOO_FEW_MATCHING_KEYPOINTS) \<and>
   length (accepted_matches 10 seeded_keypoints (moved_frame 8 5)) = 5 \<and>
   \<not> skew_rejected (1, 0, 0, 1, 0, 0) \<and> \<not> scale_rejected (1, 0, 0, 1, 0, 0) \<and>
   update_augmentation (fixed_solver (1000, 0, 0, - (1 / 2 ^ 40), 0, 0)) (moved_frame 10 5)
       test_augmentation =
     Inr (test_augmentation
            \<lparr>transform := ((1000, 0, 0), (0, - (1 / 2 ^ 40), 0), (0, 0, 1)),
             num_potential_keypoints := 0\<rparr>,
          MAR_ERROR_NONE) \<and>
   \<bar>1000 - (- (1 / 2 ^ 40))\<bar> > (1000 :: real)"
proof -
  have acc: "length (accepted_matches 10 seeded_keypoints (moved_frame 8 5)) = 5"
    by (simp add: accepted_moved_frame length_moved_frame)
  have "close_matches 10 seeded_keypoints (moved_frame 8 5) = []"
    by (simp add: far_moved_frame)
  then have "matched_keypoints (frame_pass 10 seeded_keypoints (moved_frame 8 5) init_buffers) = 0"
    using frame_pass_count [OF wf_init_buffers, of 10 seeded_keypoints "moved_frame 8 5"] by simp
  then have few: "update_augmentation (fixed_solver (1, 0, 0, 1, 0, 0)) (moved_frame 8 5)
      test_augmentation = Inr (test_augmentation, MAR_ERROR_TOO_FEW_MATCHING_KEYPOINTS)"
    by (simp add: update_augmentation_def matching_phase_def local_pass_def
        contained_test_augmentation init_buffers_def [symmetric]
        MAR_MIN_NUM_OF_MATCHED_KEYPOINTS_def)
       (simp add: test_augmentation_def init_buffers_def)
  have ok: "\<not> skew_rejected (1, 0, 0, 1, 0, 0)" "\<not> scale_rejected (1, 0, 0, 1, 0, 0)"
    by (simp_all add: skew_rejected_grid scale_rejected_grid)
  have "\<not> skew_rejected (1000, 0, 0, - (1 / 2 ^ 40), 0, 0)"
    by (simp add: skew_rejected_grid)
  from update_moved_frame_passing [OF this scale_absorbed]
  have commit: "update_augmentation (fixed_solver (1000, 0, 0, - (1 / 2 ^ 40), 0, 0)) (moved_frame 10 5)
       test_augmentation =
     Inr (test_augmentation
            \<lparr>transform := ((1000, 0, 0), (0, - (1 / 2 ^ 40), 0), (0, 0, 1)),
             num_potential_keypoints := 0\<rparr>,
          MAR_ERROR_NONE)"
    by (simp add: assemble_transform_def)
  show ?thesis by (intro conjI few acc ok commit) simp
qed

text \<open>
  Claim C1, amended: for an augmentation processed by a frame during which no array is
  read beyond its end, the status recorded is \<open>InsufficientMatches\<close> if and only if
  the counter \<open>matched_keypoints\<close> (after the pass over the whole frame, when taken)
  is below 5 or the fitted parameters violate a bound (\<open>|m01 + m10| > 1000\<close> or
  \<open>|m00 - m11| > 1000\<close>, both strict, the sum and the difference being the binary32
  ones); the counter counts an accepted match only when its distance is below the last
  entry of \<open>differences\<close>, which starts at 2. In every such case \<open>transform\<close> and
  \<open>transform_inverse\<close> are unchanged; otherwise the status is \<open>MAR_ERROR_NONE\<close> and
  \<open>transform\<close> holds the fitted parameters over the row \<open>(0, 0, 1)\<close>.
\<close>

theorem update_augmentation_status:
  assumes "update_augmentation solve frame a = Inr (a', status)"
  shows "case solve (design_rows (fst (matching_phase a frame)))
                (rhs_entries (fst (matching_phase a frame))) of
           (m00, m01, m10, m11, tx, ty) \<Rightarrow>
             (status = MAR_ERROR_TOO_FEW_MATCHING_KEYPOINTS \<longleftrightarrow>
                matched_keypoints (fst (matching_phase a frame)) < 5 \<or>
                f32_less (Finite 1000) (f32_abs (f32_add (Finite m01) (Finite m10))) \<or>
                f32_less (Finite 1000) (f32_abs (f32_sub (Finite m00) (Finite m11)))) \<and>
             (status = MAR_ERROR_TOO_FEW_MATCHING_KEYPOINTS \<longrightarrow>
                transform a' = transform a \<and> transform_inverse a' = transform_inverse a) \<and>
             (status \<noteq> MAR_ERROR_TOO_FEW_MATCHING_KEYPOINTS \<longrightarrow>
                status = MAR_ERROR_NONE \<and>
                transform a' = ((m00, m01, tx), (m10, m11, ty), (0, 0, 1)))"
proof -
  obtain b initial where mp: "matching_phase a frame = (b, initial)" by force
  obtain m00 m01 m10 m11 tx ty
    where T: "solve (design_rows b) (rhs_entries b) = (m00, m01, m10, m11, tx, ty)"
    by (metis prod_cases6)
  define a1 where "a1 = a\<lparr>initial_keypoints := initial\<rparr>"
  define skew where "skew = f32_less (Finite 1000) (f32_abs (f32_add (Finite m01) (Finite m10)))"
  define scale where "scale = f32_less (Finite 1000) (f32_abs (f32_sub (Finite m00) (Finite m11)))"
  have a1: "transform a1 = transform a" "transform_inverse a1 = transform_inverse a"
    by (simp_all add: a1_def)
  have rej: "skew_rejected (m00, m01, m10, m11, tx, ty) \<longleftrightarrow> skew"
    "scale_rejected (m00, m01, m10, m11, tx, ty) \<longleftrightarrow> scale"
    by (simp_all add: skew_rejected_def scale_rejected_def MAR_AUGMENT_MAX_SKEW_def
        MAR_AUGMENT_MAX_SCALE_RATIO_def skew_def scale_def)
  note U = assms [unfolded update_augmentation_unfold [OF mp] T rej, folded a1_def]
  have goal: "(status = MAR_ERROR_TOO_FEW_MATCHING_KEYPOINTS \<longleftrightarrow>
        matched_keypoints b < 5 \<or> skew \<or> scale) \<and>
     (status = MAR_ERROR_TOO_FEW_MATCHING_KEYPOINTS \<longrightarrow>
        transform a' = transform a \<and> transform_inverse a' = transform_inverse a) \<and>
     (status \<noteq> MAR_ERROR_TOO_FEW_MATCHING_KEYPOINTS \<longrightarrow>
        status = MAR_ERROR_NONE \<and>
        transform a' = ((m00, m01, tx), (m10, m11, ty), (0, 0, 1)))"
  proof (cases "matched_keypoints b < 5")
    case True
    with U have "a' = a1" "status = MAR_ERROR_TOO_FEW_MATCHING_KEYPOINTS" by simp_all
    with True a1 show ?thesis by simp
  next
    case False
    show ?thesis
    proof (cases "skew \<or> scale")
      case True
      with U False have "a' = a1" "status = MAR_ERROR_TOO_FEW_MATCHING_KEYPOINTS"
        by (simp_all split: if_splits)
      with True a1 show ?thesis by simp
    next
      case ok: False
      with U False
      have "add_new_points (a1\<lparr>transform := assemble_transform (m00, m01, m10, m11, tx, ty)\<rparr>) frame = Inr a'"
        and st: "status = MAR_ERROR_NONE"
        by (simp_all add: a1_def split: if_splits sum.splits)
      from add_new_points_fields [OF this(1)]
      have "transform a' = ((m00, m01, tx), (m10, m11, ty), (0, 0, 1))"
        by (simp add: assemble_transform_def)
      with ok False st show ?thesis by simp
    qed
  qed
  then show ?thesis unfolding skew_def scale_def by (simp add: mp T)
qed

theorem update_augmentation_status_witness:
  "update_augmentation (fixed_solver (1001, 0, 0, 1, 30, -15)) (moved_frame 10 5) test_augmentation =
     Inr (test_augmentation
            \<lparr>transform := ((1001, 0, 30), (0, 1, -15), (0, 0, 1)), num_potential_keypoints := 0\<rparr>,
          MAR_ERROR_NONE) \<and>
   \<not> (matched_keypoints (fst (matching_phase test_augmentation (moved_frame 10 5))) < 5 \<or>
      f32_less (Finite 1000) (f32_abs (f32_add (Finite 0) (Finite 0))) \<or>
      f32_less (Finite 1000) (f32_abs (f32_sub (Finite 1001) (Finite 1)))) \<and>
   transform (test_augmentation
            \<lparr>transform := ((1001, 0, 30), (0, 1, -15), (0, 0, 1)), num_potential_keypoints := 0\<rparr>) =
     ((1001, 0, 30), (0, 1, -15), (0, 0, 1))"
  using update_augmentation_status [OF update_moved_frame] update_moved_frame
  by (simp add: fixed_solver_def)

section \<open>More matches than the buffers hold\<close>

lemma crowd_match:
  assumes "k \<le> 257"
  shows "get_best_keypoint_match
       (test_keypoint (real k) (real k) (unit_descriptor 40 (10 + (257 - real k) / 1024)))
       seeded_keypoints 10 = (0, (257 - real k) / 1024)"
proof -
  have "\<bar>10 + (257 - real k) / 1024 - 10\<bar> = (257 - real k) / 1024" using assms by simp
  moreover have "(257 - real k) / 1024 < 4" by simp
  moreover have "(10 + (257 - real k) / 1024) * 1024 = of_int (10497 - int k)" by simp
  then have "(10 + (257 - real k) / 1024) * 1024 \<in> \<int>" by (simp only: Ints_of_int)
  ultimately show ?thesis
    using match_seeded [of 0 "10 + (257 - real k) / 1024" "real k" "real k"] by simp
qed

lemma crowd_fold:
  assumes "k \<le> 257"
  shows "wf_buffers (fold (match_frame_step 10 seeded_keypoints)
           (map (\<lambda>k. test_keypoint (real k) (real k) (unit_descriptor 40 (10 + (257 - real k) / 1024)))
              [0..<k]) init_buffers) \<and>
     matched_keypoints (fold (match_frame_step 10 seeded_keypoints)
           (map (\<lambda>k. test_keypoint (real k) (real k) (unit_descriptor 40 (10 + (257 - real k) / 1024)))
              [0..<k]) init_buffers) = k \<and>
     (\<forall>d\<in>set (differences (fold (match_frame_step 10 seeded_keypoints)
           (map (\<lambda>k. test_keypoint (real k) (real k) (unit_descriptor 40 (10 + (257 - real k) / 1024)))
              [0..<k]) init_buffers)). (258 - real k) / 1024 \<le> d)"
  using assms
proof (induction k)
  case 0
  show ?case by (simp add: wf_init_buffers) (simp add: init_buffers_def MAR_MAX_KEYPOINT_DIFFERENCE_def)
next
  case (Suc k)
  define g where "g = (\<lambda>k. test_keypoint (real k) (real k) (unit_descriptor 40 (10 + (257 - real k) / 1024)))"
  define b where "b = fold (match_frame_step 10 seeded_keypoints) (map g [0..<k]) init_buffers"
  have IH: "wf_buffers b" "matched_keypoints b = k" "\<forall>d\<in>set (differences b). (258 - real k) / 1024 \<le> d"
    using Suc by (simp_all add: b_def g_def)
  define bd where "bd = (257 - real k) / 1024"
  have step: "fold (match_frame_step 10 seeded_keypoints) (map g [0..<Suc k]) init_buffers =
      record_match (kp_x (seeded_keypoints ! 0)) (kp_y (seeded_keypoints ! 0)) (real k) (real k) bd b"
    using crowd_match [of k] Suc.prems by (simp add: b_def g_def match_frame_step_def bd_def)
  have "differences b ! 255 \<in> set (differences b)"
    using IH(1) by (simp add: wf_buffers_def MAR_MAX_NUM_OF_MATCHED_KEYPOINTS_def)
  then have "(258 - real k) / 1024 \<le> differences b ! 255" using IH(3) by blast
  then have lt: "bd < differences b ! 255" by (simp add: bd_def)
  have sub: "set (differences (record_match rx ry qx qy bd b)) \<subseteq> insert bd (set (differences b))"
    for rx ry qx qy
    using IH(1) by (rule differences_record_match_subset)
  have "\<forall>d\<in>insert bd (set (differences b)). (258 - real (Suc k)) / 1024 \<le> d"
    using IH(3) by (auto simp add: bd_def)
  with sub have low: "\<forall>d\<in>set (differences (record_match rx ry qx qy bd b)). (258 - real (Suc k)) / 1024 \<le> d"
    for rx ry qx qy by blast
  show ?case
    unfolding g_def [symmetric] step
    using IH(1,2) lt low by (simp add: wf_record_match matched_record_match)
qed

text \<open>
  Claim C3 fails on the code. The 257 keypoints of \<open>crowd_frame\<close> all match
  reference 0, each at a smaller distance than those before: every one is counted,
  \<open>matched_keypoints\<close> is 257, and the loop that fills the system reads index 256 of
  the arrays of 256 entries.
\<close>

theorem fit_reads_beyond_buffers:
  "length crowd_frame = 257 \<and>
   matched_keypoints (fst (matching_phase test_augmentation crowd_frame)) = 257 \<and>
   list_ex (\<lambda>j. MAR_MAX_NUM_OF_MATCHED_KEYPOINTS \<le> j)
     (fit_read_indices (fst (matching_phase test_augmentation crowd_frame))) \<and>
   update_augmentation (fixed_solver (1, 0, 0, 1, 0, 0)) crowd_frame test_augmentation = Inl OutOfBounds"
proof -
  have m: "matched_keypoints (frame_pass 10 seeded_keypoints crowd_frame init_buffers) = 257"
    using crowd_fold [of 257] by (simp add: frame_pass_def crowd_frame_def reset_init_buffers)
  have "list_ex (\<lambda>j. 256 \<le> j) [0..<257]"
    unfolding list_ex_iff by (intro bexI [of _ 256]) simp_all
  moreover have "length crowd_frame = 257" by (simp add: crowd_frame_def)
  ultimately show ?thesis
    unfolding update_augmentation_unfold [OF matching_phase_test_augmentation]
    by (simp add: matching_phase_test_augmentation m fit_read_indices_def
        MAR_MAX_NUM_OF_MATCHED_KEYPOINTS_def)
qed

section \<open>The pass over the whole frame\<close>















section \<open>Registration\<close>

lemma seed_fold_count:
  assumes "num \<le> 512"
  shows "snd (snd (fold (seed_step region) kps (ini, cur, num))) =
     min 512 (num + length (keypoints_in_region region kps))"
  using assms
proof (induction kps arbitrary: ini cur num)
  case Nil
  then show ?case by (simp add: keypoints_in_region_def)
next
  case (Cons kp kps)
  show ?case
  proof (cases "is_point_in_ellipse (kp_x kp) (kp_y kp) (ellipse_x region) (ellipse_y region)
                 (ellipse_a region) (ellipse_b region) (ellipse_angle region)")
    case True
    define num' where "num' = (if 512 \<le> num then 512 else num + 1)"
    obtain ini' cur' where st: "seed_step region kp (ini, cur, num) = (ini', cur', num')"
      using True by (simp add: seed_step_def num'_def MAR_MAX_NUMBER_OF_AUGMENTATION_KEYPOINTS_def)
    have "num' \<le> 512" using Cons.prems by (simp add: num'_def)
    from Cons.IH [OF this, of ini' cur']
    have "snd (snd (fold (seed_step region) (kp # kps) (ini, cur, num))) =
        min 512 (num' + length (keypoints_in_region region kps))"
      by (simp add: st)
    moreover have "keypoints_in_region region (kp # kps) = kp # keypoints_in_region region kps"
      using True by (simp add: keypoints_in_region_def)
    ultimately show ?thesis using Cons.prems by (simp add: num'_def)
  next
    case False
    then have st: "seed_step region kp (ini, cur, num) = (ini, cur, num)"
      by (simp add: seed_step_def)
    have "keypoints_in_region region (kp # kps) = keypoints_in_region region kps"
      using False by (simp add: keypoints_in_region_def)
    with Cons.IH [OF Cons.prems, of ini cur] show ?thesis by (simp add: st)
  qed
qed






section \<open>Operations on an empty slot\<close>

text \<open>
  In the initialised module the three operations that check the slot return
  \<open>MAR_ERROR_AUGMENTATION_ID_DOES_NOT_EXIST\<close> for an empty slot and write nothing.
\<close>

lemma checked_operations_unknown_id:
  assumes "mar_augment_initialized st" "aid < 32" "\<not> mar_augmentation_initialized st ! aid"
  shows "mar_augment_get_transformation st aid = Inr (MAR_ERROR_AUGMENTATION_ID_DOES_NOT_EXIST, None)"
    and "mar_augment_transform_point st aid x y = Inr (MAR_ERROR_AUGMENTATION_ID_DOES_NOT_EXIST, None)"
    and "mar_augment_untransform_point st aid x y = Inr (MAR_ERROR_AUGMENTATION_ID_DOES_NOT_EXIST, None)"
  using assms
  by (simp_all add: mar_augment_get_transformation_def mar_augment_transform_point_def
      mar_augment_untransform_point_def MAR_MAX_NUMBER_OF_AUGMENTATIONS_def)

text \<open>
  Claim C9 fails on the code for \<open>mar_augmentation_get_error\<close>: it checks neither the
  module nor the slot. For slot 0 of a registry in which no augmentation was ever
  created it returns the stored \<open>MAR_ERROR_NONE\<close>, where
  \<open>mar_augment_get_transformation\<close> returns
  \<open>MAR_ERROR_AUGMENTATION_ID_DOES_NOT_EXIST\<close>.
\<close>

theorem get_error_on_empty_slot:
  "mar_augment_initialized (empty_registry []) \<and>
   \<not> mar_augmentation_initialized (empty_registry []) ! 0 \<and>
   mar_augmentation_get_error (empty_registry []) 0 = Inr MAR_ERROR_NONE \<and>
   mar_augment_get_transformation (empty_registry []) 0 =
     Inr (MAR_ERROR_AUGMENTATION_ID_DOES_NOT_EXIST, None)"
  by (simp add: empty_registry_def mar_augmentation_get_error_def mar_augment_get_transformation_def
      MAR_MAX_NUMBER_OF_AUGMENTATIONS_def)

section \<open>The descriptor of a matched reference\<close>

lemma memcpy_floats_128: "memcpy_floats dst src 128 = take 32 src @ drop 32 dst"
  by (simp add: memcpy_floats_def sizeof_float_def)

text \<open>
  What the code does on an accepted match: the first 32 entries of the descriptor of
  the reference are those of the keypoint, the other 96 stay.
\<close>

lemma match_contained_step_descriptor:
  assumes "get_best_keypoint_match q initial n = (k, bd)" "k \<noteq> -1" "nat k < length initial"
  shows "descriptor (snd (match_contained_step n q (b, initial)) ! nat k) =
     take 32 (descriptor q) @ drop 32 (descriptor (initial ! nat k))"
  using assms by (simp add: match_contained_step_def memcpy_floats_128)

text \<open>
  Claim C4 fails on the code. The keypoint with descriptor \<open>unit_descriptor 40 9\<close> is
  inside the patch of \<open>origin_augmentation\<close> and is accepted as a match of reference
  0, at distance 1; \<open>memcpy\<close> copies 128 bytes, the first 32 floats, and the
  descriptor of reference 0 still has 10 in dimension 40.
\<close>

theorem descriptor_overwrite_partial:
  "contained_keypoints origin_augmentation [test_keypoint 5 5 (unit_descriptor 40 9)] =
     [test_keypoint 5 5 (unit_descriptor 40 9)] \<and>
   get_best_keypoint_match (test_keypoint 5 5 (unit_descriptor 40 9))
     (initial_keypoints origin_augmentation) (num_initial_keypoints origin_augmentation) = (0, 1) \<and>
   descriptor (snd (local_pass origin_augmentation [test_keypoint 5 5 (unit_descriptor 40 9)]) ! 0) =
     unit_descriptor 40 10 \<and>
   descriptor (snd (local_pass origin_augmentation [test_keypoint 5 5 (unit_descriptor 40 9)]) ! 0) ! 40 = 10 \<and>
   descriptor (test_keypoint 5 5 (unit_descriptor 40 9)) ! 40 = 9"
proof -
  define q where "q = test_keypoint 5 5 (unit_descriptor 40 9)"
  have ini: "initial_keypoints origin_augmentation = seeded_keypoints"
    "num_initial_keypoints origin_augmentation = 10"
    by (simp_all add: origin_augmentation_def test_augmentation_def)
  have m: "get_best_keypoint_match q seeded_keypoints 10 = (0, 1)"
    using match_seeded [of 0 9 5 5] by (simp add: q_def)
  have "descriptor (snd (match_contained_step 10 q (init_buffers, seeded_keypoints)) ! nat 0) =
      take 32 (descriptor q) @ drop 32 (descriptor (seeded_keypoints ! nat 0))"
    using m by (intro match_contained_step_descriptor [where bd = 1]) (simp_all add: length_seeded)
  also have "\<dots> = take 32 (unit_descriptor 40 9) @ drop 32 (unit_descriptor 40 10)"
    by (simp add: q_def seeded_nth)
  also have "take 32 (unit_descriptor 40 9) = take 32 (unit_descriptor 40 10)"
    by (simp add: unit_descriptor_def)
  also have "take 32 (unit_descriptor 40 10) @ drop 32 (unit_descriptor 40 10) = unit_descriptor 40 10"
    by (rule append_take_drop_id)
  finally have d: "descriptor (snd (local_pass origin_augmentation [q]) ! 0) = unit_descriptor 40 10"
    by (simp add: local_pass_def contained_origin_augmentation ini)
  have "unit_descriptor 40 c ! 40 = c" for c by (simp add: unit_descriptor_def)
  with d m show ?thesis
    unfolding q_def [symmetric] by (simp add: contained_origin_augmentation ini) (simp add: q_def)
qed

section \<open>Promotion of a new keypoint\<close>

lemma get_best_keypoint_match_take:
  assumes "take n kps = take n kps'"
  shows "get_best_keypoint_match q kps n = get_best_keypoint_match q kps' n"
proof -
  have "kps ! i = kps' ! i" if "i < n" for i using assms that by (metis nth_take)
  then have "match_step q kps i = match_step q kps' i" if "i \<in> set [0..<n]" for i
    using that by (simp add: match_step_def fun_eq_iff)
  then have "fold (match_step q kps) [0..<n] s = fold (match_step q kps') [0..<n] s" for s
    by (intro fold_cong) simp_all
  then show ?thesis by (simp add: get_best_keypoint_match_def)
qed

text \<open>
  When the first 32 entries of the two descriptors agree, an accepted match leaves the
  references as they are, and the step is the one of the pass over the frame.
\<close>

lemma match_contained_step_same:
  assumes "get_best_keypoint_match q initial n = (k, bd)"
    and "k \<noteq> -1 \<Longrightarrow> nat k < length initial \<and>
       take 32 (descriptor q) = take 32 (descriptor (initial ! nat k))"
  shows "match_contained_step n q (b, initial) = (match_frame_step n initial q b, initial)"
proof (cases "k = -1")
  case True
  with assms(1) show ?thesis by (simp add: match_contained_step_def match_frame_step_def)
next
  case False
  then have "memcpy_floats (descriptor (initial ! nat k)) (descriptor q) 128 =
      descriptor (initial ! nat k)"
    using assms(2) by (simp add: memcpy_floats_128)
  then show ?thesis
    using assms(1) False by (simp add: match_contained_step_def match_frame_step_def)
qed

lemma take_32_unit_descriptor: "32 \<le> j \<Longrightarrow> take 32 (unit_descriptor j c) = replicate 32 0"
  by (simp add: unit_descriptor_def)

lemma probe_step_same:
  assumes "i < 10" "\<bar>c - 10\<bar> < 4" "c * 1024 \<in> \<int>"
  shows "match_contained_step 10 (test_keypoint x y (unit_descriptor (40 + i) c)) (b, seeded_keypoints) =
     (match_frame_step 10 seeded_keypoints (test_keypoint x y (unit_descriptor (40 + i) c)) b,
      seeded_keypoints)"
proof (rule match_contained_step_same [OF match_seeded [OF assms]])
  show "nat (int i) < length seeded_keypoints \<and>
      take 32 (descriptor (test_keypoint x y (unit_descriptor (40 + i) c))) =
      take 32 (descriptor (seeded_keypoints ! nat (int i)))"
    using assms(1) by (simp add: length_seeded seeded_nth take_32_unit_descriptor)
qed

lemma frames_probes:
  assumes "q \<in> set first_frame \<union> set second_frame"
  shows "\<exists>i c x y. i < 10 \<and> \<bar>c - 10\<bar> < 4 \<and> c * 1024 \<in> \<int> \<and>
     q = test_keypoint x y (unit_descriptor (40 + i) c)"
proof -
  consider "q \<in> set (moved_frame 10 5)" | "q = potential_keypoint" | "q = candidate_keypoint"
    using assms by (auto simp add: first_frame_def second_frame_def)
  then show ?thesis
  proof cases
    case 1
    then obtain i where "i < 5"
      "q = test_keypoint (200 + real i) (50 + real (i * i)) (unit_descriptor (40 + i) 10)"
      by (auto simp add: moved_frame_def)
    then have "i < 10 \<and> \<bar>10 - 10 :: real\<bar> < 4 \<and> (10 :: real) * 1024 \<in> \<int> \<and>
        q = test_keypoint (200 + real i) (50 + real (i * i)) (unit_descriptor (40 + i) 10)"
      by simp
    then show ?thesis by blast
  next
    case 2
    then have "(9::nat) < 10 \<and> \<bar>8.5 - 10 :: real\<bar> < 4 \<and> (8.5 :: real) * 1024 \<in> \<int> \<and>
        q = test_keypoint 7 7 (unit_descriptor (40 + 9) 8.5)"
      by (simp add: potential_keypoint_def)
    then show ?thesis by blast
  next
    case 3
    then have "(9::nat) < 10 \<and> \<bar>7 - 10 :: real\<bar> < 4 \<and> (7 :: real) * 1024 \<in> \<int> \<and>
        q = test_keypoint 5 5 (unit_descriptor (40 + 9) 7)"
      by (simp add: candidate_keypoint_def)
    then show ?thesis by blast
  qed
qed

lemma local_fold_frames:
  assumes "set qs \<subseteq> set first_frame \<union> set second_frame"
  shows "fold (match_contained_step 10) qs (b, seeded_keypoints) =
     (fold (match_frame_step 10 seeded_keypoints) qs b, seeded_keypoints)"
  using assms
proof (induction qs arbitrary: b)
  case Nil
  show ?case by simp
next
  case (Cons q qs)
  then obtain i c x y where "i < 10" "\<bar>c - 10\<bar> < 4" "c * 1024 \<in> \<int>"
    "q = test_keypoint x y (unit_descriptor (40 + i) c)"
    using frames_probes [of q] by auto
  then have "match_contained_step 10 q (b, seeded_keypoints) =
      (match_frame_step 10 seeded_keypoints q b, seeded_keypoints)"
    using probe_step_same by simp
  with Cons show ?case by simp
qed

lemma origin_fields:
  "initial_keypoints origin_augmentation = seeded_keypoints"
  "num_initial_keypoints origin_augmentation = 10"
  "num_potential_keypoints origin_augmentation = 0"
  "new_keypoint_cursor origin_augmentation = 10"
  "transform_inverse origin_augmentation = mat3_zero"
  "potential_keypoints origin_augmentation = replicate 512 blank_keypoint"
  by (simp_all add: origin_augmentation_def test_augmentation_def)

lemma promoting_fields:
  "initial_keypoints promoting_augmentation = seeded_keypoints"
  "num_initial_keypoints promoting_augmentation = 10"
  "num_potential_keypoints promoting_augmentation = 6"
  "new_keypoint_cursor promoting_augmentation = 10"
  "transform_inverse promoting_augmentation = mat3_zero"
  "potential_keypoints promoting_augmentation = first_frame @ drop 6 (replicate 512 blank_keypoint)"
  "transform promoting_augmentation = ((1, 0, 30), (0, 1, -15), (0, 0, 1))"
  by (simp_all add: promoting_augmentation_def origin_fields)

lemma contained_promoting_augmentation: "contained_keypoints promoting_augmentation frame = frame"
  using contained_origin_augmentation [of frame]
  by (simp add: contained_keypoints_def promoting_augmentation_def)

lemma length_frames: "length first_frame = 6" "length second_frame = 6"
  by (simp_all add: first_frame_def second_frame_def length_moved_frame)

lemma potential_match: "get_best_keypoint_match potential_keypoint seeded_keypoints 10 = (9, 1.5)"
  using match_seeded [of 9 "8.5" 7 7] by (simp add: potential_keypoint_def)

lemma candidate_match: "get_best_keypoint_match candidate_keypoint seeded_keypoints 10 = (9, 3)"
  using match_seeded [of 9 7 5 5] by (simp add: candidate_keypoint_def)

lemma close_frames:
  "close_matches 10 seeded_keypoints first_frame = first_frame"
  "close_matches 10 seeded_keypoints second_frame = moved_frame 10 5"
proof -
  have m: "close_matches 10 seeded_keypoints (moved_frame 10 5) = moved_frame 10 5"
    by (simp add: close_moved_frame)
  have app: "close_matches n ini (xs @ ys) = close_matches n ini xs @ close_matches n ini ys"
    for n ini xs ys by (simp add: close_matches_def)
  have "close_matches 10 seeded_keypoints [potential_keypoint] = [potential_keypoint]"
    by (simp add: close_matches_def potential_match MAR_MAX_KEYPOINT_DIFFERENCE_def)
  then show "close_matches 10 seeded_keypoints first_frame = first_frame"
    by (simp add: first_frame_def app m)
  have "close_matches 10 seeded_keypoints [candidate_keypoint] = []"
    by (simp add: close_matches_def candidate_match MAR_MAX_KEYPOINT_DIFFERENCE_def)
  then show "close_matches 10 seeded_keypoints second_frame = moved_frame 10 5"
    using app [of 10 seeded_keypoints "[candidate_keypoint]" "moved_frame 10 5"]
    by (simp add: second_frame_def m)
qed

text \<open>In both frames the first pass counts at least 5 matches and leaves the references.\<close>

lemma matching_phase_frames:
  "matching_phase origin_augmentation first_frame =
     (fold (match_frame_step 10 seeded_keypoints) first_frame init_buffers, seeded_keypoints)"
  "matched_keypoints (fold (match_frame_step 10 seeded_keypoints) first_frame init_buffers) = 6"
  "matching_phase promoting_augmentation second_frame =
     (fold (match_frame_step 10 seeded_keypoints) second_frame init_buffers, seeded_keypoints)"
  "matched_keypoints (fold (match_frame_step 10 seeded_keypoints) second_frame init_buffers) = 5"
proof -
  show 1: "matched_keypoints (fold (match_frame_step 10 seeded_keypoints) first_frame init_buffers) = 6"
    using frame_fold_count [OF buffers_inv_init, of 10 seeded_keypoints first_frame]
    by (simp add: close_frames length_frames init_buffers_def)
  show 2: "matched_keypoints (fold (match_frame_step 10 seeded_keypoints) second_frame init_buffers) = 5"
    using frame_fold_count [OF buffers_inv_init, of 10 seeded_keypoints second_frame]
    by (simp add: close_frames length_moved_frame init_buffers_def)
  have "local_pass origin_augmentation first_frame =
      (fold (match_frame_step 10 seeded_keypoints) first_frame init_buffers, seeded_keypoints)"
    by (simp add: local_pass_def contained_origin_augmentation origin_fields local_fold_frames)
  then show "matching_phase origin_augmentation first_frame =
     (fold (match_frame_step 10 seeded_keypoints) first_frame init_buffers, seeded_keypoints)"
    by (simp add: matching_phase_def 1 MAR_MIN_NUM_OF_MATCHED_KEYPOINTS_def)
  have "local_pass promoting_augmentation second_frame =
      (fold (match_frame_step 10 seeded_keypoints) second_frame init_buffers, seeded_keypoints)"
    by (simp add: local_pass_def contained_promoting_augmentation promoting_fields local_fold_frames)
  then show "matching_phase promoting_augmentation second_frame =
     (fold (match_frame_step 10 seeded_keypoints) second_frame init_buffers, seeded_keypoints)"
    by (simp add: matching_phase_def 2 MAR_MIN_NUM_OF_MATCHED_KEYPOINTS_def)
qed

lemma grow_step_keep:
  assumes "snd (get_best_keypoint_match q (initial_keypoints a) (num_initial_keypoints a)) \<le> 2"
  shows "grow_step q (n, np, a) =
     (n, np + 1, a\<lparr>potential_keypoints := (potential_keypoints a)[np := q]\<rparr>)"
proof -
  obtain k bd where m: "get_best_keypoint_match q (initial_keypoints a) (num_initial_keypoints a) = (k, bd)"
    by force
  with assms have "\<not> bd > 2" by simp
  with m show ?thesis by (simp add: grow_step_def MAR_MAX_KEYPOINT_DIFFERENCE_def)
qed

text \<open>
  When every contained keypoint is within \<open>MAR_MAX_KEYPOINT_DIFFERENCE\<close> of its best
  reference, the loop copies them all to the front of \<open>potential_keypoints\<close>.
\<close>

lemma grow_loop_keep_all:
  assumes "\<forall>q\<in>set rest.
      snd (get_best_keypoint_match q (initial_keypoints a) (num_initial_keypoints a)) \<le> 2"
    and "length (front @ rest) \<le> 512" and "length pot = 512"
    and "potential_keypoints a = front @ drop (length front) pot"
  shows "grow_loop (front @ rest) (length front) (length (front @ rest), length front, a) =
     Inr (a\<lparr>potential_keypoints := (front @ rest) @ drop (length (front @ rest)) pot,
            num_potential_keypoints := length (front @ rest)\<rparr>)"
  using assms
proof (induction rest arbitrary: front a)
  case Nil
  then show ?case by (subst grow_loop.simps) simp
next
  case (Cons q rest)
  define a' where "a' = a\<lparr>potential_keypoints := (potential_keypoints a)[length front := q]\<rparr>"
  have lt: "length front < 512" using Cons.prems(2) by simp
  then have "drop (length front) pot = pot ! length front # drop (Suc (length front)) pot"
    using Cons.prems(3) by (simp add: Cons_nth_drop_Suc)
  then have pot': "potential_keypoints a' = (front @ [q]) @ drop (length (front @ [q])) pot"
    by (simp add: a'_def Cons.prems(4))
  have step: "grow_step q (length (front @ q # rest), length front, a) =
      (length (front @ q # rest), length front + 1, a')"
    using Cons.prems(1) by (simp add: grow_step_keep a'_def)
  have "grow_loop (front @ q # rest) (length front) (length (front @ q # rest), length front, a) =
      grow_loop (front @ q # rest) (length front + 1) (length (front @ q # rest), length front + 1, a')"
    using lt step
    by (subst grow_loop.simps) (simp add: MAR_MAX_NUMBER_OF_AUGMENTATION_KEYPOINTS_def)
  also have "\<dots> = grow_loop ((front @ [q]) @ rest) (length (front @ [q]))
      (length ((front @ [q]) @ rest), length (front @ [q]), a')"
    by simp
  also have "\<dots> = Inr (a'\<lparr>potential_keypoints := ((front @ [q]) @ rest) @
        drop (length ((front @ [q]) @ rest)) pot,
      num_potential_keypoints := length ((front @ [q]) @ rest)\<rparr>)"
    using Cons.prems pot' by (intro Cons.IH) (simp_all add: a'_def)
  finally show ?case by (simp add: a'_def)
qed

text \<open>The first frame takes \<open>origin_augmentation\<close> to \<open>promoting_augmentation\<close>.\<close>

lemma promoting_reached:
  "update_augmentation (fixed_solver (1, 0, 0, 1, 30, -15)) first_frame origin_augmentation =
     Inr (promoting_augmentation, MAR_ERROR_NONE)"
proof -
  define a where "a = origin_augmentation\<lparr>transform := ((1, 0, 30), (0, 1, -15), (0, 0, 1))\<rparr>"
  have close: "\<forall>q\<in>set first_frame.
      snd (get_best_keypoint_match q (initial_keypoints a) (num_initial_keypoints a)) \<le> 2"
  proof
    fix q assume "q \<in> set first_frame"
    then have "q \<in> set (close_matches 10 seeded_keypoints first_frame)" by (simp add: close_frames)
    then show "snd (get_best_keypoint_match q (initial_keypoints a) (num_initial_keypoints a)) \<le> 2"
      by (simp add: close_matches_def a_def origin_fields MAR_MAX_KEYPOINT_DIFFERENCE_def)
  qed
  have "grow_loop ([] @ first_frame) (length ([] :: mar_sift_keypoint list))
      (length ([] @ first_frame), length ([] :: mar_sift_keypoint list), a) =
     Inr (a\<lparr>potential_keypoints := ([] @ first_frame) @
            drop (length ([] @ first_frame)) (replicate 512 blank_keypoint),
          num_potential_keypoints := length ([] @ first_frame)\<rparr>)"
    using close by (intro grow_loop_keep_all) (simp_all add: length_frames a_def origin_fields)
  then have "add_new_points a first_frame = Inr promoting_augmentation"
    by (simp add: add_new_points_def a_def contained_origin_augmentation length_frames
        promoting_augmentation_def)
  moreover have "origin_augmentation\<lparr>initial_keypoints := seeded_keypoints\<rparr> = origin_augmentation"
    by (simp add: origin_augmentation_def test_augmentation_def)
  ultimately show ?thesis
    unfolding update_augmentation_unfold [OF matching_phase_frames(1)]
    by (simp add: matching_phase_frames(2) fixed_solver_def skew_rejected_grid scale_rejected_grid
        assemble_transform_def a_def)
qed

lemma first_frame_nth:
  "i < 5 \<Longrightarrow> first_frame ! i =
     test_keypoint (200 + real i) (50 + real (i * i)) (unit_descriptor (40 + i) 10)"
  "first_frame ! 5 = potential_keypoint"
  by (simp_all add: first_frame_def moved_frame_def nth_append)

lemma candidate_potential_match:
  "get_best_keypoint_match candidate_keypoint (potential_keypoints promoting_augmentation)
     (num_potential_keypoints promoting_augmentation) = (5, 1.5)"
proof -
  have d: "get_keypoint_difference candidate_keypoint (first_frame ! i) = Finite 17" if "i < 5" for i
    using that
    by (simp add: first_frame_nth candidate_keypoint_def difference_unit)
  have d5: "get_keypoint_difference candidate_keypoint (first_frame ! 5) = Finite 1.5"
    by (simp add: first_frame_nth candidate_keypoint_def potential_keypoint_def difference_unit)
  have upt: "[0..<6] = [0, 1, 2, 3, 4, 5]" by code_simp
  have "get_best_keypoint_match candidate_keypoint first_frame 6 = (5, 1.5)"
    by (simp add: get_best_keypoint_match_def upt match_step_def d d5 FLT_MAX_def
        MAR_UNIQUE_KEYPOINT_THRESHOLD_def)
  moreover have "take 6 (first_frame @ drop 6 (replicate 512 blank_keypoint)) = take 6 first_frame"
    by (simp add: length_frames)
  ultimately show ?thesis
    using get_best_keypoint_match_take [of 6 "first_frame @ drop 6 (replicate 512 blank_keypoint)"
        first_frame candidate_keypoint]
    by (simp add: promoting_fields)
qed

text \<open>The step of the loop for the candidate: it is promoted into slot 10.\<close>

lemma grow_step_candidate:
  "grow_step candidate_keypoint (n, 0, promoting_augmentation) =
     (if 512 \<le> n then 512 else n + 1, 0,
      promoting_augmentation
        \<lparr>initial_keypoints := seeded_keypoints[10 := candidate_keypoint\<lparr>kp_x := 0, kp_y := 0\<rparr>],
         new_keypoint_cursor := 11\<rparr>)"
proof -
  have m: "get_best_keypoint_match candidate_keypoint (initial_keypoints promoting_augmentation)
      (num_initial_keypoints promoting_augmentation) = (9, 3)"
    by (simp add: promoting_fields candidate_match)
  show ?thesis
    unfolding grow_step_def prod.case m candidate_potential_match
    by (simp add: promoting_fields(1,2,4,5) MAR_MAX_KEYPOINT_DIFFERENCE_def
        mat3_apply_def mat3_zero_def MAR_MAX_NUMBER_OF_AUGMENTATION_KEYPOINTS_def)
qed

lemma grow_step_bounds:
  "fst (grow_step q s) = fst s \<or> fst (grow_step q s) = 512 \<or> fst (grow_step q s) = fst s + 1"
  "fst (snd (grow_step q s)) \<le> fst (snd s) + 1"
  by (auto simp add: grow_step_def MAR_MAX_NUMBER_OF_AUGMENTATION_KEYPOINTS_def split: prod.splits)

text \<open>
  Once the bound of the loop is above the size of a buffer of fewer than 512
  keypoints, the loop reads beyond the buffer.
\<close>

lemma grow_loop_beyond:
  assumes "j \<le> length cbuf" "length cbuf < fst s" "length cbuf < 512"
    "fst (snd s) + (length cbuf - j) < 512"
  shows "grow_loop cbuf j s = Inl OutOfBounds"
  using assms
proof (induction "length cbuf - j" arbitrary: j s)
  case 0
  then have "j = length cbuf" by simp
  with "0.prems" show ?case
    by (subst grow_loop.simps) (simp add: MAR_MAX_NUMBER_OF_AUGMENTATION_KEYPOINTS_def)
next
  case (Suc d)
  define s' where "s' = grow_step (cbuf ! j) s"
  have j: "j < length cbuf" using Suc.hyps(2) by simp
  have b: "length cbuf < fst s'"
    using grow_step_bounds(1) [of "cbuf ! j" s] Suc.prems(2,3) by (auto simp add: s'_def)
  have np: "fst (snd s') + (length cbuf - (j + 1)) < 512"
    using grow_step_bounds(2) [of "cbuf ! j" s] Suc.prems(4) j by (simp add: s'_def)
  have "grow_loop cbuf (j + 1) s' = Inl OutOfBounds"
    using Suc.hyps(2) j b np Suc.prems(3) by (intro Suc.hyps(1)) simp_all
  moreover have "fst (snd s) < 512" "j < fst s" using Suc.prems(2,4) j by simp_all
  then have "grow_loop cbuf j s = grow_loop cbuf (j + 1) s'"
    using j
    by (subst grow_loop.simps) (simp add: s'_def MAR_MAX_NUMBER_OF_AUGMENTATION_KEYPOINTS_def)
  ultimately show ?case by simp
qed

lemma second_frame_commit:
  "promoting_augmentation
     \<lparr>initial_keypoints := seeded_keypoints,
      transform := assemble_transform (fixed_solver (1, 0, 0, 1, 30, -15) A r)\<rparr> =
   promoting_augmentation"
  by (simp add: promoting_augmentation_def origin_augmentation_def test_augmentation_def
      assemble_transform_def fixed_solver_def)

lemma second_frame_unfold:
  "update_augmentation (fixed_solver (1, 0, 0, 1, 30, -15)) second_frame promoting_augmentation =
     (case add_new_points promoting_augmentation second_frame of
        Inl f \<Rightarrow> Inl f
      | Inr a3 \<Rightarrow> Inr (a3, MAR_ERROR_NONE))"
  unfolding update_augmentation_unfold [OF matching_phase_frames(3)] second_frame_commit
  by (simp add: matching_phase_frames(4) fixed_solver_def skew_rejected_grid scale_rejected_grid)

lemma second_frame_beyond: "add_new_points promoting_augmentation second_frame = Inl OutOfBounds"
proof -
  have "grow_loop second_frame 0 (6, 0, promoting_augmentation) =
      grow_loop second_frame 1 (grow_step candidate_keypoint (6, 0, promoting_augmentation))"
    by (subst grow_loop.simps)
       (simp add: MAR_MAX_NUMBER_OF_AUGMENTATION_KEYPOINTS_def length_frames, simp add: second_frame_def)
  also have "\<dots> = Inl OutOfBounds"
    by (rule grow_loop_beyond) (simp_all add: grow_step_candidate length_frames)
  finally show ?thesis
    by (simp add: add_new_points_def contained_promoting_augmentation length_frames)
qed

text \<open>
  Claim C5 fails on the code. After the first frame the augmentation holds the
  potential keypoint; in the second frame the fit is made (5 matches) and the loop
  that adds new points starts with the candidate, which is at distance 3 from its
  best reference and at distance 1.5 from the potential keypoint. It is written to
  \<open>initial_keypoints[10]\<close> and the cursor moves to 11, but it is the bound
  \<open>num_keypoints\<close> of the loop that goes up, from 6 to 7; \<open>num_initial_keypoints\<close> is
  10 before and after, so no match looks at slot 10.
\<close>

theorem promotion_keeps_count:
  "update_augmentation (fixed_solver (1, 0, 0, 1, 30, -15)) first_frame origin_augmentation =
     Inr (promoting_augmentation, MAR_ERROR_NONE) \<and>
   matched_keypoints (fst (matching_phase promoting_augmentation second_frame)) = 5 \<and>
   contained_keypoints promoting_augmentation second_frame ! 0 = candidate_keypoint \<and>
   snd (get_best_keypoint_match candidate_keypoint (initial_keypoints promoting_augmentation)
          (num_initial_keypoints promoting_augmentation)) = 3 \<and>
   get_best_keypoint_match candidate_keypoint (potential_keypoints promoting_augmentation)
     (num_potential_keypoints promoting_augmentation) = (5, 1.5) \<and>
   fst (grow_step candidate_keypoint (6, 0, promoting_augmentation)) = 7 \<and>
   initial_keypoints (snd (snd (grow_step candidate_keypoint (6, 0, promoting_augmentation)))) ! 10 =
     candidate_keypoint\<lparr>kp_x := 0, kp_y := 0\<rparr> \<and>
   new_keypoint_cursor (snd (snd (grow_step candidate_keypoint (6, 0, promoting_augmentation)))) = 11 \<and>
   num_initial_keypoints promoting_augmentation = 10 \<and>
   num_initial_keypoints (snd (snd (grow_step candidate_keypoint (6, 0, promoting_augmentation)))) = 10"
  unfolding candidate_potential_match grow_step_candidate
  by (simp add: promoting_reached matching_phase_frames promoting_fields(1,2,4,5) candidate_match
      contained_promoting_augmentation length_seeded)
     (simp add: second_frame_def)

text \<open>
  Claim C10 fails on the code. In the second frame all six keypoints are inside the
  patch, so the buffer of contained keypoints has six entries, and the fit reads
  five entries of its arrays. The promotion of the candidate raises the bound of the
  loop to 7, and its seventh iteration reads \<open>contained_keypoints[6]\<close>.
\<close>

theorem grow_reads_beyond_buffer:
  "update_augmentation (fixed_solver (1, 0, 0, 1, 30, -15)) first_frame origin_augmentation =
     Inr (promoting_augmentation, MAR_ERROR_NONE) \<and>
   length (contained_keypoints promoting_augmentation second_frame) = 6 \<and>
   matched_keypoints (fst (matching_phase promoting_augmentation second_frame)) = 5 \<and>
   fst (grow_step candidate_keypoint (6, 0, promoting_augmentation)) = 7 \<and>
   add_new_points promoting_augmentation second_frame = Inl OutOfBounds \<and>
   update_augmentation (fixed_solver (1, 0, 0, 1, 30, -15)) second_frame promoting_augmentation =
     Inl OutOfBounds"
  unfolding second_frame_unfold second_frame_beyond grow_step_candidate
  by (simp add: promoting_reached matching_phase_frames contained_promoting_augmentation length_frames)

section \<open>Further properties of the frame update\<close>

text \<open>
  \<open>mar_augment_update\<close> never writes \<open>transform_inverse\<close>, \<open>num_initial_keypoints\<close> or
  the ellipse of an augmentation: whatever the frame, they are after it what they
  were before.
\<close>

theorem update_keeps_inverse_and_count:
  assumes "update_augmentation solve frame a = Inr (a', status)"
  shows "transform_inverse a' = transform_inverse a \<and>
     num_initial_keypoints a' = num_initial_keypoints a \<and> mser a' = mser a"
proof -
  obtain b initial where mp: "matching_phase a frame = (b, initial)" by force
  define a1 where "a1 = a\<lparr>initial_keypoints := initial\<rparr>"
  have a1: "transform_inverse a1 = transform_inverse a"
    "num_initial_keypoints a1 = num_initial_keypoints a" "mser a1 = mser a"
    by (simp_all add: a1_def)
  note U = assms [unfolded update_augmentation_unfold [OF mp], folded a1_def]
  show ?thesis
  proof (cases "a' = a1")
    case True
    with a1 show ?thesis by simp
  next
    case False
    with U have "add_new_points
        (a1\<lparr>transform := assemble_transform (solve (design_rows b) (rhs_entries b))\<rparr>) frame = Inr a'"
      by (simp add: a1_def split: if_splits sum.splits)
    from add_new_points_fields [OF this] a1 show ?thesis by simp
  qed
qed

theorem update_keeps_inverse_and_count_witness:
  "transform_inverse (test_augmentation
       \<lparr>transform := ((1001, 0, 30), (0, 1, -15), (0, 0, 1)), num_potential_keypoints := 0\<rparr>) =
     transform_inverse test_augmentation \<and>
   transform_inverse test_augmentation = mat3_zero"
  using update_keeps_inverse_and_count [OF update_moved_frame]
  by (simp add: test_augmentation_def)

text \<open>
  With \<open>transform_inverse\<close> the zero matrix every keypoint is untransformed to the
  origin: the keypoints within the ellipse are all those of the frame or none.
\<close>

theorem contained_all_or_none:
  "contained_keypoints (a\<lparr>transform_inverse := mat3_zero\<rparr>) frame =
     (if is_point_in_ellipse 0 0 (ellipse_x (mser a)) (ellipse_y (mser a)) (ellipse_a (mser a))
           (ellipse_b (mser a)) (ellipse_angle (mser a))
      then frame else [])"
  by (simp add: contained_keypoints_def mat3_apply_def mat3_zero_def)

text \<open>
  While at most 256 keypoints of the frame pass the uniqueness test at a distance
  below \<open>MAR_MAX_KEYPOINT_DIFFERENCE\<close>, the pass over the frame counts exactly those.
\<close>

theorem frame_pass_counts_close_matches:
  assumes "length (buf_x b) = 256 \<and> length (buf_y b) = 256 \<and> length (buf_u b) = 256 \<and>
      length (buf_v b) = 256 \<and> length (differences b) = 256"
    and "length (close_matches n initial frame) \<le> 256"
  shows "matched_keypoints (frame_pass n initial frame b) = length (close_matches n initial frame)"
proof -
  have "wf_buffers b" using assms(1) by (simp add: wf_buffers_def MAR_MAX_NUM_OF_MATCHED_KEYPOINTS_def)
  from frame_pass_count [OF this assms(2)] show ?thesis .
qed

theorem frame_pass_counts_close_matches_witness:
  "length (close_matches 10 seeded_keypoints (moved_frame 9 7)) = 7 \<and>
   matched_keypoints (frame_pass 10 seeded_keypoints (moved_frame 9 7) init_buffers) =
     length (close_matches 10 seeded_keypoints (moved_frame 9 7))"
proof -
  have len: "length (close_matches 10 seeded_keypoints (moved_frame 9 7)) = 7"
    by (simp add: close_moved_frame length_moved_frame)
  have wf: "length (buf_x init_buffers) = 256 \<and> length (buf_y init_buffers) = 256 \<and>
      length (buf_u init_buffers) = 256 \<and> length (buf_v init_buffers) = 256 \<and>
      length (differences init_buffers) = 256"
    by (simp add: init_buffers_def MAR_MAX_NUM_OF_MATCHED_KEYPOINTS_def)
  have "length (close_matches 10 seeded_keypoints (moved_frame 9 7)) \<le> 256" using len by simp
  from frame_pass_counts_close_matches [OF wf this] len show ?thesis by simp
qed

text \<open>
  In the initialised module, \<open>mar_augment_get_transformation\<close>,
  \<open>mar_augment_transform_point\<close> and \<open>mar_augment_untransform_point\<close> return
  \<open>MAR_ERROR_AUGMENTATION_ID_DOES_NOT_EXIST\<close> for an empty slot and write nothing.
\<close>

theorem checked_operations_on_empty_slot:
  assumes "mar_augment_initialized st" "aid < 32" "\<not> mar_augmentation_initialized st ! aid"
  shows "mar_augment_get_transformation st aid = Inr (MAR_ERROR_AUGMENTATION_ID_DOES_NOT_EXIST, None) \<and>
     mar_augment_transform_point st aid x y = Inr (MAR_ERROR_AUGMENTATION_ID_DOES_NOT_EXIST, None) \<and>
     mar_augment_untransform_point st aid x y = Inr (MAR_ERROR_AUGMENTATION_ID_DOES_NOT_EXIST, None)"
  using checked_operations_unknown_id [OF assms] by simp

theorem checked_operations_on_empty_slot_witness:
  "mar_augment_get_transformation (empty_registry []) 31 =
     Inr (MAR_ERROR_AUGMENTATION_ID_DOES_NOT_EXIST, None) \<and>
   mar_augment_transform_point (empty_registry []) 31 3 4 =
     Inr (MAR_ERROR_AUGMENTATION_ID_DOES_NOT_EXIST, None) \<and>
   mar_augment_untransform_point (empty_registry []) 31 3 4 =
     Inr (MAR_ERROR_AUGMENTATION_ID_DOES_NOT_EXIST, None)"
proof -
  have "mar_augment_initialized (empty_registry [])" "(31::nat) < 32"
    "\<not> mar_augmentation_initialized (empty_registry []) ! 31"
    by (simp_all add: empty_registry_def)
  from checked_operations_on_empty_slot [OF this] show ?thesis .
qed

text \<open>
  The loop that adds new points reads beyond the buffer of contained keypoints as soon
  as its bound is above the size of the buffer, for every buffer of fewer than 512
  keypoints.
\<close>

theorem grow_loop_reads_beyond:
  assumes "length cbuf < n" "length cbuf < 512"
  shows "grow_loop cbuf 0 (n, 0, a) = Inl OutOfBounds"
  using assms by (intro grow_loop_beyond) simp_all

theorem grow_loop_reads_beyond_witness:
  "grow_loop second_frame 0 (7, 0, promoting_augmentation) = Inl OutOfBounds"
  by (rule grow_loop_reads_beyond) (simp_all add: length_frames)

text \<open>
  Registration stores as \<open>num_initial_keypoints\<close> the number of keypoints within the
  ellipse, capped at \<open>MAR_MAX_NUMBER_OF_AUGMENTATION_KEYPOINTS\<close>.
\<close>

theorem seeding_counts_keypoints_in_region:
  "snd (snd (fold (seed_step region) kps (initial, 0, 0))) =
     min MAR_MAX_NUMBER_OF_AUGMENTATION_KEYPOINTS (length (keypoints_in_region region kps))"
  using seed_fold_count [of 0 region kps initial 0]
  by (simp add: MAR_MAX_NUMBER_OF_AUGMENTATION_KEYPOINTS_def)

section \<open>The slots of the registry are updated one by one\<close>

lemma update_slot_fault:
  "fold (update_slot solve frame) xs (Inl f) = Inl f"
  by (induction xs) (simp_all add: update_slot_def)

lemma fold_update_slot:
  assumes "fold (update_slot solve frame) [0..<n] (Inr st) = Inr st'" "n \<le> 32" "wf_state st"
  shows "wf_state st' \<and>
     mar_augmentation_initialized st' = mar_augmentation_initialized st \<and>
     mar_sift_keypoints st' = mar_sift_keypoints st \<and>
     (\<forall>i<32. if i < n \<and> mar_augmentation_initialized st ! i
        then update_augmentation solve frame (mar_augmentations st ! i) =
               Inr (mar_augmentations st' ! i, mar_augmentation_successful st' ! i)
        else mar_augmentations st' ! i = mar_augmentations st ! i \<and>
             mar_augmentation_successful st' ! i = mar_augmentation_successful st ! i)"
  using assms
proof (induction n arbitrary: st')
  case 0
  then show ?case by simp
next
  case (Suc n)
  define r where "r = fold (update_slot solve frame) [0..<n] (Inr st)"
  have step: "update_slot solve frame n r = Inr st'" using Suc.prems(1) by (simp add: r_def)
  obtain st1 where r: "r = Inr st1"
    using step by (cases r) (simp_all add: update_slot_def)
  have "fold (update_slot solve frame) [0..<n] (Inr st) = Inr st1" using r by (simp add: r_def)
  from Suc.IH [OF this] Suc.prems(2,3)
  have wf1: "wf_state st1"
    and in1: "mar_augmentation_initialized st1 = mar_augmentation_initialized st"
    and kp1: "mar_sift_keypoints st1 = mar_sift_keypoints st"
    and sl1: "\<forall>i<32. if i < n \<and> mar_augmentation_initialized st ! i
        then update_augmentation solve frame (mar_augmentations st ! i) =
               Inr (mar_augmentations st1 ! i, mar_augmentation_successful st1 ! i)
        else mar_augmentations st1 ! i = mar_augmentations st ! i \<and>
             mar_augmentation_successful st1 ! i = mar_augmentation_successful st ! i"
    by simp_all
  have n32: "n < 32" using Suc.prems(2) by simp
  have len: "length (mar_augmentations st1) = 32" "length (mar_augmentation_successful st1) = 32"
    using wf1 by (simp_all add: wf_state_def MAR_MAX_NUMBER_OF_AUGMENTATIONS_def)
  have at_n: "mar_augmentations st1 ! n = mar_augmentations st ! n"
    "mar_augmentation_successful st1 ! n = mar_augmentation_successful st ! n"
    using sl1 n32 by auto
  show ?case
  proof (cases "mar_augmentation_initialized st ! n")
    case False
    then have "st' = st1" using step r in1 by (simp add: update_slot_def)
    with wf1 in1 kp1 sl1 False show ?thesis by (auto simp: less_Suc_eq)
  next
    case True
    then obtain a' code where
      u: "update_augmentation solve frame (mar_augmentations st1 ! n) = Inr (a', code)"
      and st': "st' = st1\<lparr>mar_augmentations := (mar_augmentations st1)[n := a'],
          mar_augmentation_successful := (mar_augmentation_successful st1)[n := code]\<rparr>"
      using step r in1 by (auto simp: update_slot_def split: sum.splits)
    have "wf_state st'" using wf1 by (simp add: st' wf_state_def)
    moreover have "mar_augmentation_initialized st' = mar_augmentation_initialized st"
      "mar_sift_keypoints st' = mar_sift_keypoints st"
      using in1 kp1 by (simp_all add: st')
    moreover have "\<forall>i<32. if i < Suc n \<and> mar_augmentation_initialized st ! i
        then update_augmentation solve frame (mar_augmentations st ! i) =
               Inr (mar_augmentations st' ! i, mar_augmentation_successful st' ! i)
        else mar_augmentations st' ! i = mar_augmentations st ! i \<and>
             mar_augmentation_successful st' ! i = mar_augmentation_successful st ! i"
    proof (intro allI impI)
      fix i :: nat
      assume i: "i < 32"
      show "if i < Suc n \<and> mar_augmentation_initialized st ! i
        then update_augmentation solve frame (mar_augmentations st ! i) =
               Inr (mar_augmentations st' ! i, mar_augmentation_successful st' ! i)
        else mar_augmentations st' ! i = mar_augmentations st ! i \<and>
             mar_augmentation_successful st' ! i = mar_augmentation_successful st ! i"
      proof (cases "i = n")
        case True
        with \<open>mar_augmentation_initialized st ! n\<close> u at_n len n32 show ?thesis
          by (simp add: st')
      next
        case False
        with sl1 i len show ?thesis by (auto simp: st' less_Suc_eq)
      qed
    qed
    ultimately show ?thesis by simp
  qed
qed

lemma fold_update_slot_idle:
  assumes "\<forall>i\<in>set xs. \<not> mar_augmentation_initialized st ! i"
  shows "fold (update_slot solve frame) xs (Inr st) = Inr st"
  using assms by (induction xs) (simp_all add: update_slot_def)

lemma tracking_registry_update:
  "mar_augment_update MAR_ERROR_NONE (MAR_ERROR_NONE, moved_frame 10 5)
       (fixed_solver (1001, 0, 0, 1, 30, -15)) tracking_registry =
     Inr (tracking_registry
            \<lparr>mar_mser_calculated_this_frame := False, mar_sift_calculated_this_frame := True,
             mar_sift_keypoints := moved_frame 10 5,
             mar_augmentations := (replicate 32 blank_augmentation)
               [0 := test_augmentation
                  \<lparr>transform := ((1001, 0, 30), (0, 1, -15), (0, 0, 1)), num_potential_keypoints := 0\<rparr>],
             mar_augmentation_successful := replicate 32 MAR_ERROR_NONE\<rparr>,
          MAR_ERROR_NONE)"
proof -
  define st2 where "st2 = tracking_registry
    \<lparr>mar_mser_calculated_this_frame := False, mar_sift_calculated_this_frame := True,
     mar_sift_keypoints := moved_frame 10 5\<rparr>"
  define st3 where "st3 = st2
    \<lparr>mar_augmentations := (mar_augmentations st2)
       [0 := test_augmentation
          \<lparr>transform := ((1001, 0, 30), (0, 1, -15), (0, 0, 1)), num_potential_keypoints := 0\<rparr>],
     mar_augmentation_successful := (mar_augmentation_successful st2)[0 := MAR_ERROR_NONE]\<rparr>"
  have upt: "[0..<32] = 0 # [1..<32]" by (simp add: upt_rec)
  have s0: "update_slot (fixed_solver (1001, 0, 0, 1, 30, -15)) (moved_frame 10 5) 0 (Inr st2) = Inr st3"
    by (simp add: update_slot_def st2_def st3_def tracking_registry_def empty_registry_def
        update_moved_frame)
  have idle: "\<forall>i\<in>set [1..<32]. \<not> mar_augmentation_initialized st3 ! i"
    by (simp add: st3_def st2_def tracking_registry_def empty_registry_def)
  have f: "fold (update_slot (fixed_solver (1001, 0, 0, 1, 30, -15)) (moved_frame 10 5)) [0..<32]
      (Inr st2) = Inr st3"
    unfolding upt by (simp only: fold_simps s0 fold_update_slot_idle [OF idle])
  have e: "st3 = tracking_registry
            \<lparr>mar_mser_calculated_this_frame := False, mar_sift_calculated_this_frame := True,
             mar_sift_keypoints := moved_frame 10 5,
             mar_augmentations := (replicate 32 blank_augmentation)
               [0 := test_augmentation
                  \<lparr>transform := ((1001, 0, 30), (0, 1, -15), (0, 0, 1)), num_potential_keypoints := 0\<rparr>],
             mar_augmentation_successful := replicate 32 MAR_ERROR_NONE\<rparr>"
    by (simp add: st3_def st2_def tracking_registry_def empty_registry_def list_update_same_conv)
  have "mar_augment_update MAR_ERROR_NONE (MAR_ERROR_NONE, moved_frame 10 5)
       (fixed_solver (1001, 0, 0, 1, 30, -15)) tracking_registry = Inr (st3, MAR_ERROR_NONE)"
    using f by (simp add: mar_augment_update_def MAR_MAX_NUMBER_OF_AUGMENTATIONS_def st2_def
        tracking_registry_def empty_registry_def)
  then show ?thesis unfolding e .
qed

text \<open>
  A call of \<open>mar_augment_update\<close> in the running module, with a camera frame and its
  keypoints, returns \<open>MAR_ERROR_NONE\<close>; each initialised slot then holds the
  augmentation and the status that the update of that augmentation alone gives from
  its state before the call, and every other slot is as it was.
\<close>

theorem update_slot_by_slot:
  assumes "mar_augment_initialized st" "mar_run_augmentation st" "wf_state st"
    and "mar_augment_update MAR_ERROR_NONE (MAR_ERROR_NONE, frame) solve st = Inr (st', code)"
  shows "code = MAR_ERROR_NONE \<and> mar_sift_keypoints st' = frame \<and>
     (\<forall>i<32. if mar_augmentation_initialized st ! i
        then update_augmentation solve frame (mar_augmentations st ! i) =
               Inr (mar_augmentations st' ! i, mar_augmentation_successful st' ! i)
        else mar_augmentations st' ! i = mar_augmentations st ! i \<and>
             mar_augmentation_successful st' ! i = mar_augmentation_successful st ! i)"
proof -
  define st2 where "st2 = st
    \<lparr>mar_mser_calculated_this_frame := False, mar_sift_calculated_this_frame := False,
     mar_sift_keypoints := frame, mar_sift_calculated_this_frame := True\<rparr>"
  have wf2: "wf_state st2" using assms(3) by (simp add: st2_def wf_state_def)
  have f: "fold (update_slot solve frame) [0..<32] (Inr st2) = Inr st'" and c: "code = MAR_ERROR_NONE"
    using assms(1,2,4)
    by (auto simp: mar_augment_update_def MAR_MAX_NUMBER_OF_AUGMENTATIONS_def st2_def Let_def
        split: sum.splits)
  have same: "mar_augmentation_initialized st2 = mar_augmentation_initialized st"
    "mar_augmentations st2 = mar_augmentations st"
    "mar_augmentation_successful st2 = mar_augmentation_successful st"
    "mar_sift_keypoints st2 = frame"
    by (simp_all add: st2_def)
  have "(32::nat) \<le> 32" by simp
  from fold_update_slot [OF f this wf2] c show ?thesis unfolding same by simp
qed

theorem update_slot_by_slot_witness:
  "update_augmentation (fixed_solver (1001, 0, 0, 1, 30, -15)) (moved_frame 10 5)
       (mar_augmentations tracking_registry ! 0) =
     Inr (test_augmentation
            \<lparr>transform := ((1001, 0, 30), (0, 1, -15), (0, 0, 1)), num_potential_keypoints := 0\<rparr>,
          MAR_ERROR_NONE) \<and>
   mar_augmentation_initialized tracking_registry ! 0"
proof -
  have h: "mar_augment_initialized tracking_registry" "mar_run_augmentation tracking_registry"
    "wf_state tracking_registry"
    by (simp_all add: tracking_registry_def empty_registry_def wf_state_def
        MAR_MAX_NUMBER_OF_AUGMENTATIONS_def)
  have i: "mar_augmentation_initialized tracking_registry ! 0"
    by (simp add: tracking_registry_def empty_registry_def)
  from update_slot_by_slot [OF h tracking_registry_update] i show ?thesis by simp
qed

end
